theory Spec2Isabelle
  imports Main
begin

section \<open>Account rotation pool (account-pool.ts)\<close>

text \<open>
  Strings are lists of characters, one \<^typ>\<open>char\<close> per code unit of the source string.
  Times are milliseconds since the epoch, as \<open>Date.now()\<close> returns them, and durations
  are milliseconds; both are integers.
\<close>

record account =
  name :: string
  configDir :: string
  rateLimitedUntil :: "int option"

record account_pool =
  accounts :: "account list"
  currentIndex :: nat
  cooldownMs :: int

text \<open>
  \<open>this.accounts[this._currentIndex]\<close>: reading past the end of an array gives
  \<open>undefined\<close>, here \<open>None\<close>.
\<close>

definition currentAccount :: "account_pool \<Rightarrow> account option" where
  "currentAccount p =
     (if currentIndex p < length (accounts p) then Some (accounts p ! currentIndex p) else None)"

text \<open>
  The test of the rotation loop on a candidate:
  \<open>candidate.rateLimitedUntil === null || candidate.rateLimitedUntil <= now\<close>.
\<close>

definition available :: "int \<Rightarrow> account \<Rightarrow> bool" where
  "available now candidate =
     (case rateLimitedUntil candidate of None \<Rightarrow> True | Some u \<Rightarrow> u \<le> now)"

text \<open>
  The loop \<open>for (let i = 1; i <= this.accounts.length; i++)\<close> of
  \<open>markLimitedAndRotate\<close>, from counter \<open>i\<close> on. It returns the index the loop
  assigns to \<open>_currentIndex\<close> before \<open>return true\<close>, or \<open>None\<close> when the loop runs
  out.
\<close>

function rotate_scan :: "account list \<Rightarrow> nat \<Rightarrow> int \<Rightarrow> nat \<Rightarrow> nat option" where
  "rotate_scan accs startIndex now i =
     (if i \<le> length accs then
        (if available now (accs ! ((startIndex + i) mod length accs))
         then Some ((startIndex + i) mod length accs)
         else rotate_scan accs startIndex now (i + 1))
      else None)"
  by pat_completeness auto
termination
  by (relation "measure (\<lambda>(accs, startIndex, now, i). Suc (length accs) - i)") auto

declare rotate_scan.simps [simp del]

text \<open>
  \<open>markLimitedAndRotate(cooldownMs?)\<close>. The source reads the clock twice: \<open>t_mark\<close> is
  the reading used for the new \<open>rateLimitedUntil\<close>, \<open>t_scan\<close> the later one the loop
  compares against. The result is the returned boolean and the pool afterwards.
\<close>

definition markLimitedAndRotate ::
  "int option \<Rightarrow> int \<Rightarrow> int \<Rightarrow> account_pool \<Rightarrow> bool \<times> account_pool" where
  "markLimitedAndRotate cooldown t_mark t_scan p =
     (let cd = (case cooldown of Some c \<Rightarrow> c | None \<Rightarrow> cooldownMs p);
          p1 = (case currentAccount p of
                  Some acct \<Rightarrow>
                    p\<lparr>accounts :=
                        (accounts p)[currentIndex p := acct\<lparr>rateLimitedUntil := Some (t_mark + cd)\<rparr>]\<rparr>
                | None \<Rightarrow> p);
          now = t_scan;
          startIndex = currentIndex p1
      in case rotate_scan (accounts p1) startIndex now 1 of
           Some nextIndex \<Rightarrow> (True, p1\<lparr>currentIndex := nextIndex\<rparr>)
         | None \<Rightarrow> (False, p1))"

text \<open>
  \<open>getCurrentEnv()\<close>, as the list of the environment overrides, \<open>getCurrentName()\<close>
  and \<open>accountCount()\<close>.
\<close>

definition getCurrentEnv :: "account_pool \<Rightarrow> (string \<times> string) list" where
  "getCurrentEnv p =
     (case currentAccount p of None \<Rightarrow> [] | Some acct \<Rightarrow> [(''CLAUDE_CONFIG_DIR'', configDir acct)])"

definition getCurrentName :: "account_pool \<Rightarrow> string" where
  "getCurrentName p = (case currentAccount p of None \<Rightarrow> ''default'' | Some acct \<Rightarrow> name acct)"

definition accountCount :: "account_pool \<Rightarrow> nat" where
  "accountCount p = length (accounts p)"

subsection \<open>Status summary\<close>

text \<open>
  Decimal rendering of an integer in a template literal (JavaScript prints an integer
  in full below \<open>10^21\<close>).
\<close>

definition digit :: "nat \<Rightarrow> char" where
  "digit d = ''0123456789'' ! d"

fun show_nat :: "nat \<Rightarrow> string" where
  "show_nat n = (if n < 10 then [digit n] else show_nat (n div 10) @ [digit (n mod 10)])"

declare show_nat.simps [simp del]

definition show_int :: "int \<Rightarrow> string" where
  "show_int i = (if i < 0 then CHR ''-'' # show_nat (nat (- i)) else show_nat (nat i))"

text \<open>The number that a string of decimal digits denotes, to say what \<open>show_nat\<close> prints.\<close>

definition decimal_value :: "string \<Rightarrow> nat" where
  "decimal_value ds = foldl (\<lambda>a c. 10 * a + (of_char c - 48)) 0 ds"

text \<open>\<open>Math.ceil(d / 1000)\<close> on an integer number of milliseconds.\<close>

definition ceil_secs :: "int \<Rightarrow> int" where
  "ceil_secs d = - ((- d) div 1000)"

text \<open>\<open>parts.join(sep)\<close>.\<close>

fun join_with :: "string \<Rightarrow> string list \<Rightarrow> string" where
  "join_with sep [] = []"
| "join_with sep [x] = x"
| "join_with sep (x # y # ys) = x @ sep @ join_with sep (y # ys)"

text \<open>
  The callback of \<open>this.accounts.map((acct, idx) => ...)\<close> in \<open>getStatus\<close>. The guard
  \<open>acct.rateLimitedUntil && acct.rateLimitedUntil > now\<close> is false for \<open>null\<close> and for
  the number 0.
\<close>

definition status_part :: "int \<Rightarrow> nat \<Rightarrow> nat \<Rightarrow> account \<Rightarrow> string" where
  "status_part now cur idx acct =
     (let isCurrent = (idx = cur);
          prefix = (if isCurrent then ''>'' else '' '')
      in case rateLimitedUntil acct of
           None \<Rightarrow> prefix @ '' '' @ name acct @ '' [ok]''
         | Some u \<Rightarrow>
             if u \<noteq> 0 \<and> u > now
             then prefix @ '' '' @ name acct @ '' [limited '' @ show_int (ceil_secs (u - now)) @ ''s]''
             else prefix @ '' '' @ name acct @ '' [ok]'')"

fun status_parts :: "int \<Rightarrow> nat \<Rightarrow> nat \<Rightarrow> account list \<Rightarrow> string list" where
  "status_parts now cur idx [] = []"
| "status_parts now cur idx (acct # rest) =
     status_part now cur idx acct # status_parts now cur (idx + 1) rest"

definition getStatus :: "int \<Rightarrow> account_pool \<Rightarrow> string" where
  "getStatus now p =
     (if length (accounts p) = 0 then ''No pool configured''
      else join_with '', '' (status_parts now (currentIndex p) 0 (accounts p)))"

subsection \<open>Account discovery\<close>

text \<open>
  Character classes of the regular expressions: \<open>[a-zA-Z0-9_-]\<close>, \<open>\s\<close> (which is also
  what \<open>trim()\<close> strips) and the line terminators that \<open>.\<close> does not match, each on
  code units below 256.
\<close>

definition is_name_char :: "char \<Rightarrow> bool" where
  "is_name_char c =
     (let n = (of_char c :: nat)
      in (97 \<le> n \<and> n \<le> 122) \<or> (65 \<le> n \<and> n \<le> 90) \<or> (48 \<le> n \<and> n \<le> 57)
         \<or> c = CHR ''_'' \<or> c = CHR ''-'')"

definition is_space :: "char \<Rightarrow> bool" where
  "is_space c = ((of_char c :: nat) \<in> {9, 10, 11, 12, 13, 32, 160})"

definition is_line_terminator :: "char \<Rightarrow> bool" where
  "is_line_terminator c = ((of_char c :: nat) \<in> {10, 13})"

text \<open>\<open>toLowerCase()\<close> on a character; \<open>sanitizeName\<close> applies it to ASCII only.\<close>

definition to_lower :: "char \<Rightarrow> char" where
  "to_lower c =
     (let n = (of_char c :: nat) in if 65 \<le> n \<and> n \<le> 90 then char_of (n + 32) else c)"

definition sanitizeName :: "string \<Rightarrow> string" where
  "sanitizeName nm = map to_lower (map (\<lambda>c. if is_name_char c then c else CHR ''-'') nm)"

definition trim :: "string \<Rightarrow> string" where
  "trim s = rev (dropWhile is_space (rev (dropWhile is_space s)))"

text \<open>\<open>s.split(sep)\<close> for a one-character separator.\<close>

fun split_on :: "char \<Rightarrow> string \<Rightarrow> string list" where
  "split_on sep [] = [[]]"
| "split_on sep (c # cs) =
     (if c = sep then [] # split_on sep cs
      else (case split_on sep cs of w # ws \<Rightarrow> (c # w) # ws | [] \<Rightarrow> [[c]]))"

text \<open>
  \<open>loadFromEnv()\<close>, from the value of \<open>CLAUDE_ACCOUNTS\<close> (\<open>None\<close> when unset). An empty
  string is falsy.
\<close>

definition loadFromEnv :: "string option \<Rightarrow> string list option" where
  "loadFromEnv raw =
     (case raw of
        None \<Rightarrow> None
      | Some r \<Rightarrow> if r = [] then None
                  else Some (filter (\<lambda>s. length s > 0) (map trim (split_on CHR '','' r))))"

fun strip_prefix :: "string \<Rightarrow> string \<Rightarrow> string option" where
  "strip_prefix [] s = Some s"
| "strip_prefix (p # ps) [] = None"
| "strip_prefix (p # ps) (c # cs) = (if p = c then strip_prefix ps cs else None)"

definition starts_with_char :: "char \<Rightarrow> string \<Rightarrow> bool" where
  "starts_with_char ch s = (case s of [] \<Rightarrow> False | c # _ \<Rightarrow> c = ch)"

text \<open>\<open>/^accounts\s*:/.test(line)\<close>.\<close>

definition accounts_key :: "string \<Rightarrow> bool" where
  "accounts_key line =
     (case strip_prefix ''accounts'' line of
        None \<Rightarrow> False
      | Some r \<Rightarrow> starts_with_char CHR '':'' (dropWhile is_space r))"

text \<open>\<open>/^\s/.test(line)\<close>.\<close>

definition leading_space :: "string \<Rightarrow> bool" where
  "leading_space line = (case line of [] \<Rightarrow> False | c # _ \<Rightarrow> is_space c)"

text \<open>
  \<open>line.match(/^\s{2}([a-zA-Z0-9_-]+)\s*:/)\<close>, the captured group. The three classes
  and the colon are disjoint, so the greedy match is the only one.
\<close>

definition map_key :: "string \<Rightarrow> string option" where
  "map_key line =
     (case line of
        a # b # r \<Rightarrow>
          if is_space a \<and> is_space b \<and> takeWhile is_name_char r \<noteq> []
             \<and> starts_with_char CHR '':'' (dropWhile is_space (dropWhile is_name_char r))
          then Some (takeWhile is_name_char r)
          else None
      | _ \<Rightarrow> None)"

text \<open>
  \<open>trimmed.match(/^-\s+name\s*:\s*(.+)/)\<close>, the captured group. The argument is a
  trimmed line: it has no trailing white space, so after the colon and the white space
  either nothing is left (no match) or a character that \<open>.\<close> matches.
\<close>

definition inline_name :: "string \<Rightarrow> string option" where
  "inline_name trimmed =
     (case trimmed of
        [] \<Rightarrow> None
      | c # r \<Rightarrow>
          if c = CHR ''-'' \<and> takeWhile is_space r \<noteq> [] then
            (case strip_prefix ''name'' (dropWhile is_space r) of
               None \<Rightarrow> None
             | Some r1 \<Rightarrow>
                 (case dropWhile is_space r1 of
                    [] \<Rightarrow> None
                  | c1 # r2 \<Rightarrow>
                      if c1 = CHR '':'' then
                        (let cap = takeWhile (\<lambda>x. \<not> is_line_terminator x) (dropWhile is_space r2)
                         in if cap \<noteq> [] then Some cap else None)
                      else None))
          else None)"

text \<open>\<open>s.replace(/^["']|["']$/g, "")\<close>: one quote off the front, then one off the end.\<close>

definition is_quote :: "char \<Rightarrow> bool" where
  "is_quote c = (c = CHR 0x22 \<or> c = CHR 0x27)"

definition strip_quotes :: "string \<Rightarrow> string" where
  "strip_quotes s =
     (let s1 = (case s of c # cs \<Rightarrow> if is_quote c then cs else s | [] \<Rightarrow> s)
      in if s1 \<noteq> [] \<and> is_quote (last s1) then butlast s1 else s1)"

text \<open>\<open>trimmed.match(/^-\s+([a-zA-Z0-9_-]+)\s*$/)\<close>, the captured group.\<close>

definition plain_name :: "string \<Rightarrow> string option" where
  "plain_name trimmed =
     (case trimmed of
        [] \<Rightarrow> None
      | c # r \<Rightarrow>
          (let r1 = dropWhile is_space r in
           if c = CHR ''-'' \<and> takeWhile is_space r \<noteq> [] \<and> takeWhile is_name_char r1 \<noteq> []
              \<and> dropWhile is_space (dropWhile is_name_char r1) = []
           then Some (takeWhile is_name_char r1)
           else None))"

text \<open>
  The body of the loop of \<open>parseYamlAccountNames\<close> on one line, with the flag
  \<open>inAccounts\<close>: it sets the flag and continues (\<open>Enter\<close>), continues (\<open>Skip\<close>), breaks
  (\<open>Stop\<close>), or pushes a name and continues (\<open>Push\<close>).
\<close>

datatype line_action = Enter | Skip | Stop | Push string

definition yaml_line :: "bool \<Rightarrow> string \<Rightarrow> line_action" where
  "yaml_line inAccounts line =
     (let trimmed = trim line in
      if accounts_key line then Enter
      else if \<not> inAccounts then Skip
      else if trimmed \<noteq> [] \<and> \<not> starts_with_char CHR ''#'' trimmed \<and> \<not> leading_space line then Stop
      else if trimmed = [] \<or> starts_with_char CHR ''#'' trimmed then Skip
      else if length (takeWhile is_space line) = 2 \<and> map_key line \<noteq> None then
        (case map_key line of Some nm \<Rightarrow> Push nm | None \<Rightarrow> Skip)
      else if starts_with_char CHR ''-'' trimmed then
        (case inline_name trimmed of
           Some cap \<Rightarrow> (let nm = strip_quotes (trim cap) in if nm \<noteq> [] then Push nm else Skip)
         | None \<Rightarrow> (case plain_name trimmed of Some nm \<Rightarrow> Push nm | None \<Rightarrow> Skip))
      else Skip)"

text \<open>The loop over the lines; the result is the list \<open>names\<close> in the order of the pushes.\<close>

fun yaml_lines :: "bool \<Rightarrow> string list \<Rightarrow> string list" where
  "yaml_lines inAccounts [] = []"
| "yaml_lines inAccounts (line # rest) =
     (case yaml_line inAccounts line of
        Enter \<Rightarrow> yaml_lines True rest
      | Skip \<Rightarrow> yaml_lines inAccounts rest
      | Stop \<Rightarrow> []
      | Push nm \<Rightarrow> nm # yaml_lines inAccounts rest)"

definition parseYamlAccountNames :: "string \<Rightarrow> string list option" where
  "parseYamlAccountNames content =
     (let names = yaml_lines False (split_on CHR ''\<newline>'' content)
      in if length names > 0 then Some names else None)"

text \<open>
  \<open>buildAccounts(names, ccsDir)\<close>. Node's \<open>path.join\<close> on three segments and
  \<open>fs.existsSync\<close> are parameters.
\<close>

fun buildAccounts ::
  "(string \<Rightarrow> string \<Rightarrow> string \<Rightarrow> string) \<Rightarrow> (string \<Rightarrow> bool) \<Rightarrow> string list \<Rightarrow> string
     \<Rightarrow> account list" where
  "buildAccounts join existsSync [] ccsDir = []"
| "buildAccounts join existsSync (nm # names) ccsDir =
     (let sanitized = sanitizeName nm;
          dir = join ccsDir ''instances'' sanitized
      in if existsSync dir
         then \<lparr>name = nm, configDir = dir, rateLimitedUntil = None\<rparr>
              # buildAccounts join existsSync names ccsDir
         else buildAccounts join existsSync names ccsDir)"

text \<open>
  The constructor. \<open>envAccounts\<close> is the value of \<open>CLAUDE_ACCOUNTS\<close>, \<open>yaml\<close> the
  content of \<open>config.yaml\<close> when the file can be read, \<open>profiles\<close> what
  \<open>loadFromProfilesJson\<close> returns (its JSON parser is the platform's), \<open>cooldown\<close> the
  parsed \<open>ACCOUNT_COOLDOWN_MS\<close>. An array is truthy even when empty, so the first source
  that returns one wins.
\<close>

definition new_pool ::
  "(string \<Rightarrow> string \<Rightarrow> string \<Rightarrow> string) \<Rightarrow> (string \<Rightarrow> bool) \<Rightarrow> string \<Rightarrow> int
     \<Rightarrow> string option \<Rightarrow> string option \<Rightarrow> string list option \<Rightarrow> account_pool" where
  "new_pool join existsSync ccsDir cooldown envAccounts yaml profiles =
     (let names =
            (case loadFromEnv envAccounts of
               Some ns \<Rightarrow> ns
             | None \<Rightarrow>
                 (case (case yaml of None \<Rightarrow> None | Some content \<Rightarrow> parseYamlAccountNames content) of
                    Some ns \<Rightarrow> ns
                  | None \<Rightarrow> (case profiles of Some ns \<Rightarrow> ns | None \<Rightarrow> [])))
      in \<lparr>accounts = buildAccounts join existsSync names ccsDir,
          currentIndex = 0, cooldownMs = cooldown\<rparr>)"

section \<open>Streaming session engine (CopilotSessionManager)\<close>

datatype sdk_session = SdkSession (sessionId_of: string)

datatype copilot_client = CopilotClient

record token_usage =
  input_tokens :: int
  output_tokens :: int
  cache_read_input_tokens :: int
  cache_creation_input_tokens :: int

text \<open>The fields of the class; a \<open>Date\<close> is its time in milliseconds.\<close>

record manager =
  client :: "copilot_client option"
  session :: "sdk_session option"
  lastActivity :: "int option"
  queryStarted :: "int option"
  currentTool :: "string option"
  lastTool :: "string option"
  lastError :: "string option"
  lastErrorTime :: "int option"
  lastUsage :: "token_usage option"
  lastMessage :: "string option"
  conversationTitle :: "string option"
  currentModel :: string
  stopRequested :: bool
  isProcessing :: bool
  interruptFlag :: bool

text \<open>The field initialisers of the class.\<close>

definition new_manager :: manager where
  "new_manager =
     \<lparr>client = None, session = None, lastActivity = None, queryStarted = None,
      currentTool = None, lastTool = None, lastError = None, lastErrorTime = None,
      lastUsage = None, lastMessage = None, conversationTitle = None,
      currentModel = ''claude-sonnet-4'', stopRequested = False, isProcessing = False,
      interruptFlag = False\<rparr>"

definition sessionId :: "manager \<Rightarrow> string option" where
  "sessionId m = (case session m of None \<Rightarrow> None | Some s \<Rightarrow> Some (sessionId_of s))"

definition isActive :: "manager \<Rightarrow> bool" where
  "isActive m = (session m \<noteq> None)"

definition isRunning :: "manager \<Rightarrow> bool" where
  "isRunning m = isProcessing m"

text \<open>
  \<open>ensureClient()\<close> and \<open>ensureSession()\<close>. What the backend answers is a parameter:
  \<open>started\<close> is the result of \<open>client.start()\<close> (\<open>Inl\<close> the error it throws), \<open>created\<close>
  that of \<open>client.createSession(...)\<close>. A thrown error is the \<open>Inl\<close> result.
\<close>

definition ensureClient ::
  "string + unit \<Rightarrow> manager \<Rightarrow> (string + copilot_client) \<times> manager" where
  "ensureClient started m =
     (case client m of
        Some c \<Rightarrow> (Inr c, m)
      | None \<Rightarrow>
          (case started of
             Inr _ \<Rightarrow> (Inr CopilotClient, m\<lparr>client := Some CopilotClient\<rparr>)
           | Inl e \<Rightarrow> (Inl (''Copilot initialization failed: '' @ e), m\<lparr>client := None\<rparr>)))"

definition ensureSession ::
  "string + unit \<Rightarrow> string + sdk_session \<Rightarrow> manager \<Rightarrow> (string + sdk_session) \<times> manager" where
  "ensureSession started created m =
     (case ensureClient started m of
        (Inl e, m1) \<Rightarrow> (Inl e, m1)
      | (Inr c, m1) \<Rightarrow>
          (case session m1 of
             Some s \<Rightarrow> (Inr s, m1)
           | None \<Rightarrow>
               (case created of
                  Inl e \<Rightarrow> (Inl e, m1)
                | Inr s \<Rightarrow> (Inr s, m1\<lparr>session := Some s\<rparr>))))"

subsection \<open>One send\<close>

text \<open>
  The variables that the closures of one \<open>sendMessageStreaming\<close> call share:
  \<open>fullContent\<close>, \<open>receivedDelta\<close>, the object \<open>segment\<close> (fields \<open>text\<close>, \<open>id\<close>,
  \<open>lastUpdate\<close>), the latch \<open>settled\<close>, whether \<open>timeoutTimer\<close> is still pending, and
  whether each of the three listeners is still subscribed.
\<close>

record send_state =
  fullContent :: string
  receivedDelta :: bool
  seg_text :: string
  seg_id :: nat
  seg_lastUpdate :: int
  settled :: bool
  timerPending :: bool
  subAll :: bool
  subIdle :: bool
  subError :: bool

definition initial_send :: send_state where
  "initial_send =
     \<lparr>fullContent = [], receivedDelta = False, seg_text = [], seg_id = 0, seg_lastUpdate = 0,
      settled = False, timerPending = True, subAll = True, subIdle = True, subError = True\<rparr>"

text \<open>
  What a handler does to the outside, in the order of the calls: a call of
  \<open>statusCallback(type, content, segmentId?)\<close>, of \<open>resolve\<close> or of \<open>reject\<close> (with the
  message of the error). The status callback is the caller's: what it does with an
  update is not part of the engine. It returns a promise; \<open>handleEvent\<close> attaches
  \<open>.catch(() => {})\<close> to every call and does not wait, so there the answer of the
  callback has no effect. The idle listener awaits its calls, and there the answer
  matters: the promise fulfils or rejects.
\<close>

datatype answer = Fulfils | Rejects

datatype update_type = Thinking | Tool | Text | SegmentEnd | Done

datatype effect =
  Callback update_type string "nat option"
| Resolve string
| Reject string

text \<open>
  The events \<open>handleEvent\<close> has a case for, with the fields of \<open>event.data\<close> it reads;
  \<open>OtherEvent\<close> is any other type.
\<close>

datatype session_event =
  MessageDelta string
| Message string
| ToolStart string
| ToolComplete
| Usage "int option" "int option" "int option" "int option"
| TitleChanged string
| ReasoningDelta string
| OtherEvent

text \<open>
  The literal in front of the tool name in a \<open>tool\<close> update: the gear sign U+2699 U+FE0F
  and a space, here as its UTF-8 bytes.
\<close>

definition tool_prefix :: string where
  "tool_prefix = [CHR 0xE2, CHR 0x9A, CHR 0x99, CHR 0xEF, CHR 0xB8, CHR 0x8F, CHR 0x20]"

definition or_zero :: "int option \<Rightarrow> int" where
  "or_zero v = (case v of None \<Rightarrow> 0 | Some n \<Rightarrow> n)"

text \<open>
  \<open>handleEvent(event, statusCallback, hooks, segment)\<close>, with the hooks of
  \<open>sendMessageStreaming\<close> inlined. \<open>throttle\<close> is \<open>STREAMING_THROTTLE_MS\<close> of the
  configuration; \<open>now\<close> is what \<open>Date.now()\<close> returns while the event is handled.
\<close>

fun handleEvent ::
  "int \<Rightarrow> int \<Rightarrow> session_event \<Rightarrow> manager \<times> send_state \<Rightarrow> effect list \<times> manager \<times> send_state" where
  "handleEvent throttle now (MessageDelta deltaContent) (m, s) =
     (let s1 = s\<lparr>fullContent := fullContent s @ deltaContent, receivedDelta := True,
                 seg_text := seg_text s @ deltaContent\<rparr>
      in if now - seg_lastUpdate s1 > throttle \<and> length (seg_text s1) > 20
         then ([Callback Text (seg_text s1) (Some (seg_id s1))], m, s1\<lparr>seg_lastUpdate := now\<rparr>)
         else ([], m, s1))"
| "handleEvent throttle now (Message content) (m, s) =
     (if \<not> receivedDelta s then
        (if content \<noteq> [] then
           (let s1 = s\<lparr>fullContent := fullContent s @ content, receivedDelta := True,
                       seg_text := seg_text s @ content\<rparr>
            in ([Callback Text (seg_text s1) (Some (seg_id s1))], m, s1\<lparr>seg_lastUpdate := now\<rparr>))
         else ([], m, s))
      else ([], m, s))"
| "handleEvent throttle now (ToolStart toolName) (m, s) =
     (if seg_text s \<noteq> [] then
        ([Callback SegmentEnd (seg_text s) (Some (seg_id s)),
          Callback Tool (tool_prefix @ toolName) None],
         m\<lparr>currentTool := Some toolName\<rparr>,
         s\<lparr>seg_id := seg_id s + 1, seg_text := [], seg_lastUpdate := 0\<rparr>)
      else
        ([Callback Tool (tool_prefix @ toolName) None], m\<lparr>currentTool := Some toolName\<rparr>, s))"
| "handleEvent throttle now ToolComplete (m, s) =
     ([], m\<lparr>lastTool := currentTool m, currentTool := None\<rparr>, s)"
| "handleEvent throttle now (Usage inputTokens outputTokens cacheReadTokens cacheWriteTokens) (m, s) =
     ([], m\<lparr>lastUsage := Some \<lparr>input_tokens = or_zero inputTokens,
                                 output_tokens = or_zero outputTokens,
                                 cache_read_input_tokens = or_zero cacheReadTokens,
                                 cache_creation_input_tokens = or_zero cacheWriteTokens\<rparr>\<rparr>, s)"
| "handleEvent throttle now (TitleChanged title) (m, s) =
     ([], m\<lparr>conversationTitle := Some title\<rparr>, s)"
| "handleEvent throttle now (ReasoningDelta deltaContent) (m, s) =
     ([Callback Thinking deltaContent None], m, s)"
| "handleEvent throttle now OtherEvent (m, s) = ([], m, s)"

text \<open>\<open>settle()\<close>: the one-shot latch; \<open>clearTimeout\<close> ends the timer.\<close>

definition settle :: "send_state \<Rightarrow> bool \<times> send_state" where
  "settle s = (if settled s then (False, s) else (True, s\<lparr>settled := True, timerPending := False\<rparr>))"

text \<open>The three calls \<open>unsubAll(); unsubIdle(); unsubError();\<close>.\<close>

definition unsubscribe :: "send_state \<Rightarrow> send_state" where
  "unsubscribe s = s\<lparr>subAll := False, subIdle := False, subError := False\<rparr>"

text \<open>The callback of \<open>setTimeout\<close>.\<close>

fun on_timeout :: "manager \<times> send_state \<Rightarrow> effect list \<times> manager \<times> send_state" where
  "on_timeout (m, s) =
     (case settle s of
        (False, s1) \<Rightarrow> ([], m, s1)
      | (True, s1) \<Rightarrow>
          ([Reject ''Copilot response timed out''],
           m\<lparr>isProcessing := False, queryStarted := None, currentTool := None\<rparr>,
           unsubscribe s1))"

text \<open>
  The listener of \<open>session.idle\<close>; \<open>now\<close> is the time \<open>new Date()\<close> takes. It awaits
  the status callback twice, with no \<open>try\<close> around it: \<open>flushed\<close> is the answer to the
  \<open>segment_end\<close> call (made only when the segment has text), \<open>finished\<close> the answer to
  the \<open>done\<close> call. A call that rejects ends the listener there: the calls after it,
  and \<open>resolve\<close>, are not reached.
\<close>

fun on_idle ::
  "answer \<Rightarrow> answer \<Rightarrow> int \<Rightarrow> manager \<times> send_state \<Rightarrow> effect list \<times> manager \<times> send_state" where
  "on_idle flushed finished now (m, s) =
     (case settle s of
        (False, s1) \<Rightarrow> ([], m, s1)
      | (True, s1) \<Rightarrow>
          (let m1 = m\<lparr>isProcessing := False, queryStarted := None, currentTool := None,
                     lastActivity := Some now, lastError := None, lastErrorTime := None\<rparr>;
               s2 = unsubscribe s1;
               flush = (if seg_text s1 \<noteq> []
                        then [Callback SegmentEnd (seg_text s1) (Some (seg_id s1))] else [])
           in if seg_text s1 \<noteq> [] \<and> flushed = Rejects then (flush, m1, s2)
              else if finished = Rejects then (flush @ [Callback Done [] None], m1, s2)
              else (flush @ [Callback Done [] None,
                             Resolve (if fullContent s1 \<noteq> [] then fullContent s1
                                      else ''No response from Copilot.'')],
                    m1, s2)))"

text \<open>
  The listener of \<open>session.error\<close>; \<open>message\<close> is \<open>event.data.message\<close>, empty when it
  is missing.
\<close>

fun on_error :: "int \<Rightarrow> string \<Rightarrow> manager \<times> send_state \<Rightarrow> effect list \<times> manager \<times> send_state" where
  "on_error now message (m, s) =
     (case settle s of
        (False, s1) \<Rightarrow> ([], m, s1)
      | (True, s1) \<Rightarrow>
          (let errMsg = (if message \<noteq> [] then message else ''Unknown Copilot error'')
           in ([Reject errMsg],
               m\<lparr>isProcessing := False, queryStarted := None, currentTool := None,
                 lastError := Some (take 100 errMsg), lastErrorTime := Some now\<rparr>,
               unsubscribe s1)))"

text \<open>The \<open>catch\<close> of \<open>session.send(...)\<close>; \<open>err\<close> is the message of what it rejects with.\<close>

fun on_send_failed :: "string \<Rightarrow> manager \<times> send_state \<Rightarrow> effect list \<times> manager \<times> send_state" where
  "on_send_failed err (m, s) =
     (case settle s of
        (False, s1) \<Rightarrow> ([], m, s1)
      | (True, s1) \<Rightarrow>
          ([Reject err], m\<lparr>isProcessing := False, queryStarted := None\<rparr>, unsubscribe s1))"

text \<open>
  What can reach a pending send: an event of the session, the idle event (with the
  answers the status callback will give to the two calls the idle listener awaits), the
  error event, the timer, the rejection of \<open>session.send\<close>. A listener runs only while it is
  subscribed and the timer's callback only while the timer is pending; the idle and the
  error event have no case in \<open>handleEvent\<close>, so the listener of all events does nothing
  on them.
\<close>

datatype signal =
  Event session_event
| SessionIdle answer answer
| SessionError string
| TimeoutFired
| SendRejected string

fun deliver ::
  "int \<Rightarrow> int \<Rightarrow> signal \<Rightarrow> manager \<times> send_state \<Rightarrow> effect list \<times> manager \<times> send_state" where
  "deliver throttle now (Event e) (m, s) =
     (if subAll s then handleEvent throttle now e (m, s) else ([], m, s))"
| "deliver throttle now (SessionIdle flushed finished) (m, s) =
     (if subIdle s then on_idle flushed finished now (m, s) else ([], m, s))"
| "deliver throttle now (SessionError message) (m, s) =
     (if subError s then on_error now message (m, s) else ([], m, s))"
| "deliver throttle now TimeoutFired (m, s) =
     (if timerPending s then on_timeout (m, s) else ([], m, s))"
| "deliver throttle now (SendRejected err) (m, s) = on_send_failed err (m, s)"

text \<open>
  A run of one send: the signals in the order they arrive, each with the time of its
  arrival. The result lists every effect with the time of the signal that caused it.
\<close>

fun run ::
  "int \<Rightarrow> (int \<times> signal) list \<Rightarrow> manager \<times> send_state
     \<Rightarrow> (int \<times> effect) list \<times> manager \<times> send_state" where
  "run throttle [] w = ([], w)"
| "run throttle ((now, sg) # rest) w =
     (case deliver throttle now sg w of
        (effs, w1) \<Rightarrow>
          (case run throttle rest w1 of
             (effs', w2) \<Rightarrow> (map (Pair now) effs @ effs', w2)))"

text \<open>
  \<open>sendMessageStreaming\<close> up to the creation of the promise: the message to send, the
  fields it sets and the fresh variables of the send. \<open>datePrefix\<close> is the formatted
  date line, \<open>now\<close> the time \<open>new Date()\<close> takes.
\<close>

definition begin_send ::
  "int \<Rightarrow> string \<Rightarrow> string \<Rightarrow> manager \<Rightarrow> string \<times> manager \<times> send_state" where
  "begin_send now datePrefix message m =
     (let isNewSession = (lastActivity m = None);
          messageToSend = (if isNewSession then datePrefix @ message else message)
      in (messageToSend,
          m\<lparr>isProcessing := True, stopRequested := False, queryStarted := Some now,
            currentTool := None\<rparr>,
          initial_send))"

text \<open>
  \<open>kill()\<close>. \<open>destroyed\<close> is the result of \<open>session.destroy()\<close>; the \<open>catch\<close> only logs.
  The first component is the handle \<open>destroy()\<close> was called on, if any.
\<close>

definition kill :: "string + unit \<Rightarrow> manager \<Rightarrow> sdk_session option \<times> manager" where
  "kill destroyed m =
     (let m1 = (case session m of
                  Some s \<Rightarrow> (case destroyed of Inr _ \<Rightarrow> m | Inl e \<Rightarrow> m)\<lparr>session := None\<rparr>
                | None \<Rightarrow> m)
      in (session m,
          m1\<lparr>lastActivity := None, conversationTitle := None, lastMessage := None,
             isProcessing := False\<rparr>))"

subsection \<open>Notions for stating the properties\<close>

text \<open>Which signals settle a send, and which effects are settlements.\<close>

fun is_terminal :: "signal \<Rightarrow> bool" where
  "is_terminal (Event e) = False"
| "is_terminal sg = True"

fun is_settlement :: "effect \<Rightarrow> bool" where
  "is_settlement (Callback t c i) = False"
| "is_settlement e = True"

text \<open>The signals that carry response text: a delta or a complete message.\<close>

fun carries_text :: "signal \<Rightarrow> bool" where
  "carries_text (Event (MessageDelta d)) = True"
| "carries_text (Event (Message c)) = True"
| "carries_text sg = False"

text \<open>
  A pending send has its latch open, its timer pending and its listeners subscribed; a
  finished one has the latch closed, the timer cleared and no listener left.
\<close>

definition live :: "send_state \<Rightarrow> bool" where
  "live s = (\<not> settled s \<and> timerPending s \<and> subAll s \<and> subIdle s \<and> subError s)"

definition dead :: "send_state \<Rightarrow> bool" where
  "dead s = (settled s \<and> \<not> timerPending s \<and> \<not> subAll s \<and> \<not> subIdle s \<and> \<not> subError s)"

text \<open>
  The settlement that each terminal signal stands for: the four outcomes of a send. The
  idle event stands for one when the status callback fulfils the calls that the idle
  listener awaits.
\<close>

definition idle_returns :: "answer \<Rightarrow> answer \<Rightarrow> send_state \<Rightarrow> bool" where
  "idle_returns flushed finished s =
     ((seg_text s = [] \<or> flushed = Fulfils) \<and> finished = Fulfils)"

fun settlement_of :: "signal \<Rightarrow> send_state \<Rightarrow> effect option" where
  "settlement_of (SessionIdle flushed finished) s =
     (if idle_returns flushed finished s
      then Some (Resolve (if fullContent s \<noteq> [] then fullContent s
                          else ''No response from Copilot.''))
      else None)"
| "settlement_of (SessionError message) s =
     Some (Reject (if message \<noteq> [] then message else ''Unknown Copilot error''))"
| "settlement_of TimeoutFired s = Some (Reject ''Copilot response timed out'')"
| "settlement_of (SendRejected err) s = Some (Reject err)"
| "settlement_of (Event e) s = None"

text \<open>
  The times of the \<open>text\<close> updates that carry segment id \<open>k\<close>, in the order of a run's
  effects.
\<close>

fun is_text_for :: "nat \<Rightarrow> effect \<Rightarrow> bool" where
  "is_text_for k (Callback ty c i) = (ty = Text \<and> i = Some k)"
| "is_text_for k e = False"

definition text_times :: "nat \<Rightarrow> (int \<times> effect) list \<Rightarrow> int list" where
  "text_times k effs = map fst (filter (\<lambda>x. is_text_for k (snd x)) effs)"

section \<open>Examples\<close>

text \<open>Example pools: three accounts of which the current one is limited, and a single account.\<close>

definition pool_ABC :: account_pool where
  "pool_ABC =
     \<lparr>accounts = [\<lparr>name = ''A'', configDir = ''/ccs/instances/a'', rateLimitedUntil = Some 11000\<rparr>,
                  \<lparr>name = ''B'', configDir = ''/ccs/instances/b'', rateLimitedUntil = None\<rparr>,
                  \<lparr>name = ''C'', configDir = ''/ccs/instances/c'', rateLimitedUntil = None\<rparr>],
      currentIndex = 0, cooldownMs = 300000\<rparr>"

definition pool_A :: account_pool where
  "pool_A =
     \<lparr>accounts = [\<lparr>name = ''A'', configDir = ''/ccs/instances/a'', rateLimitedUntil = None\<rparr>],
      currentIndex = 0, cooldownMs = 300000\<rparr>"

text \<open>
  For examples: \<open>path.join\<close> on segments that need no normalising, and a file system in
  which every instance directory exists.
\<close>

definition join_slash :: "string \<Rightarrow> string \<Rightarrow> string \<Rightarrow> string" where
  "join_slash a b c = a @ ''/'' @ b @ ''/'' @ c"

definition every_dir :: "string \<Rightarrow> bool" where
  "every_dir d = True"

text \<open>
  Example runs: three deltas of 5, 10 and 30 characters within one throttle window and
  the text they add up to, and a burst of four deltas.
\<close>

definition example_deltas :: "(int \<times> string) list" where
  "example_deltas = [(1000, ''Hello''), (1100, '', this is ''), (1200, ''a reply of thirty characters..'')]"

definition example_text :: string where
  "example_text = ''Hello, this is a reply of thirty characters..''"

definition example_burst :: "(int \<times> signal) list" where
  "example_burst =
     [(1000, Event (MessageDelta ''a first delta of thirty chars.'')),
      (1200, Event (MessageDelta ''second'')),
      (1500, Event (MessageDelta ''third'')),
      (1600, Event (MessageDelta ''fourth''))]"

text \<open>The state of a send right after the first delta of the burst has been emitted.\<close>

definition example_emitted :: send_state where
  "example_emitted =
     initial_send\<lparr>fullContent := ''a first delta of thirty chars.'', receivedDelta := True,
                  seg_text := ''a first delta of thirty chars.'', seg_lastUpdate := 1000\<rparr>"

text \<open>The example deltas as signals of a send.\<close>

definition example_send :: "(int \<times> signal) list" where
  "example_send = map (\<lambda>(t, d). (t, Event (MessageDelta d))) example_deltas"

text \<open>A manager in the middle of a conversation.\<close>

definition example_manager :: manager where
  "example_manager =
     new_manager\<lparr>client := Some CopilotClient, session := Some (SdkSession ''abc123''),
       lastActivity := Some 7000, lastError := Some ''old error'', lastErrorTime := Some 6000,
       lastMessage := Some ''hello'', conversationTitle := Some ''hello'', isProcessing := True,
       lastTool := Some ''bash'', stopRequested := True\<rparr>"

section \<open>Properties of the account pool\<close>

subsection \<open>The rotation loop\<close>

lemma rotate_scan_None:
  "rotate_scan accs s now i = None \<longleftrightarrow>
     (\<forall>j. i \<le> j \<and> j \<le> length accs \<longrightarrow> \<not> available now (accs ! ((s + j) mod length accs)))"
proof (induction accs s now i rule: rotate_scan.induct)
  case (1 accs s now i)
  show ?case
  proof (cases "i \<le> length accs")
    case False
    then show ?thesis by (auto simp: rotate_scan.simps [of accs s now i])
  next
    case le: True
    show ?thesis
    proof (cases "available now (accs ! ((s + i) mod length accs))")
      case True
      with le show ?thesis
        by (auto simp: rotate_scan.simps [of accs s now i])
    next
      case False
      have "(\<forall>j. i \<le> j \<and> j \<le> length accs \<longrightarrow> \<not> available now (accs ! ((s + j) mod length accs)))
          \<longleftrightarrow> (\<forall>j. i + 1 \<le> j \<and> j \<le> length accs \<longrightarrow> \<not> available now (accs ! ((s + j) mod length accs)))"
        using False by (metis Suc_eq_plus1 Suc_leI le_neq_implies_less add_leD1 le_refl)
      with le False "1.IH" show ?thesis
        by (simp add: rotate_scan.simps [of accs s now i])
    qed
  qed
qed

lemma rotate_scan_Some:
  "rotate_scan accs s now i = Some k \<Longrightarrow>
     \<exists>j. i \<le> j \<and> j \<le> length accs \<and> k = (s + j) mod length accs
        \<and> available now (accs ! ((s + j) mod length accs))
        \<and> (\<forall>j'. i \<le> j' \<and> j' < j \<longrightarrow> \<not> available now (accs ! ((s + j') mod length accs)))"
proof (induction accs s now i rule: rotate_scan.induct)
  case (1 accs s now i)
  from "1.prems" have le: "i \<le> length accs"
    by (simp add: rotate_scan.simps [of accs s now i] split: if_splits)
  show ?case
  proof (cases "available now (accs ! ((s + i) mod length accs))")
    case True
    with le "1.prems" have "k = (s + i) mod length accs"
      by (simp add: rotate_scan.simps [of accs s now i])
    with True le show ?thesis by (intro exI [of _ i]) auto
  next
    case False
    with le "1.prems" have "rotate_scan accs s now (i + 1) = Some k"
      by (simp add: rotate_scan.simps [of accs s now i])
    from "1.IH" [OF le False this] obtain j where j:
      "i + 1 \<le> j" "j \<le> length accs" "k = (s + j) mod length accs"
      "available now (accs ! ((s + j) mod length accs))"
      "\<forall>j'. i + 1 \<le> j' \<and> j' < j \<longrightarrow> \<not> available now (accs ! ((s + j') mod length accs))"
      by blast
    have "\<forall>j'. i \<le> j' \<and> j' < j \<longrightarrow> \<not> available now (accs ! ((s + j') mod length accs))"
    proof (intro allI impI)
      fix j' assume "i \<le> j' \<and> j' < j"
      then consider "j' = i" | "i + 1 \<le> j' \<and> j' < j" by linarith
      then show "\<not> available now (accs ! ((s + j') mod length accs))"
        using False j(5) by cases auto
    qed
    with j show ?thesis by (intro exI [of _ j]) auto
  qed
qed

lemma marked_length:
  "length (accounts (case currentAccount p of
      Some acct \<Rightarrow> p\<lparr>accounts := (accounts p)[currentIndex p := f acct]\<rparr> | None \<Rightarrow> p))
   = length (accounts p)"
  by (simp split: option.split)

text \<open>
  Claim C1. \<open>markLimitedAndRotate\<close> first sets \<open>rateLimitedUntil\<close> of the current
  account to the clock reading plus the cooldown (the pool's own cooldown when none is
  given); an empty pool has no current account and stays as it is. It then looks at the
  accounts at \<open>currentIndex + 1, ..., currentIndex + N\<close> modulo the pool size \<open>N\<close>. If
  one of them is not limited at the time of the scan, it returns true and
  \<open>currentIndex\<close> is the first such index in that order; if none is, it returns false
  and \<open>currentIndex\<close> is unchanged.
\<close>

theorem markLimitedAndRotate_rotation:
  assumes "markLimitedAndRotate cooldown t_mark t_scan p = (r, p')"
  shows "accounts p' =
           (if currentIndex p < length (accounts p)
            then (accounts p)[currentIndex p :=
                   (accounts p ! currentIndex p)
                     \<lparr>rateLimitedUntil :=
                        Some (t_mark + (case cooldown of Some c \<Rightarrow> c | None \<Rightarrow> cooldownMs p))\<rparr>]
            else accounts p)
         \<and> cooldownMs p' = cooldownMs p
         \<and> ((\<exists>i. 1 \<le> i \<and> i \<le> length (accounts p)
                 \<and> available t_scan (accounts p' ! ((currentIndex p + i) mod length (accounts p))))
              \<longrightarrow> r \<and> (\<exists>k. 1 \<le> k \<and> k \<le> length (accounts p)
                        \<and> currentIndex p' = (currentIndex p + k) mod length (accounts p)
                        \<and> available t_scan (accounts p' ! currentIndex p')
                        \<and> (\<forall>j. 1 \<le> j \<and> j < k \<longrightarrow>
                              \<not> available t_scan
                                  (accounts p' ! ((currentIndex p + j) mod length (accounts p))))))
         \<and> ((\<forall>i. 1 \<le> i \<and> i \<le> length (accounts p)
                 \<longrightarrow> \<not> available t_scan
                        (accounts p' ! ((currentIndex p + i) mod length (accounts p))))
              \<longrightarrow> \<not> r \<and> currentIndex p' = currentIndex p)"
proof -
  define cd where "cd = (case cooldown of Some c \<Rightarrow> c | None \<Rightarrow> cooldownMs p)"
  define p1 where "p1 = (case currentAccount p of
      Some acct \<Rightarrow> p\<lparr>accounts := (accounts p)[currentIndex p := acct\<lparr>rateLimitedUntil := Some (t_mark + cd)\<rparr>]\<rparr>
    | None \<Rightarrow> p)"
  have len: "length (accounts p1) = length (accounts p)"
    unfolding p1_def by (rule marked_length)
  have cur: "currentIndex p1 = currentIndex p"
    unfolding p1_def by (simp split: option.split)
  have cool: "cooldownMs p1 = cooldownMs p"
    unfolding p1_def by (simp split: option.split)
  have accs: "accounts p1 =
      (if currentIndex p < length (accounts p)
       then (accounts p)[currentIndex p :=
              (accounts p ! currentIndex p)\<lparr>rateLimitedUntil := Some (t_mark + cd)\<rparr>]
       else accounts p)"
    unfolding p1_def by (simp add: currentAccount_def)
  have res: "(r, p') = (case rotate_scan (accounts p1) (currentIndex p) t_scan 1 of
                 Some nextIndex \<Rightarrow> (True, p1\<lparr>currentIndex := nextIndex\<rparr>)
               | None \<Rightarrow> (False, p1))"
    using assms cur unfolding markLimitedAndRotate_def Let_def p1_def cd_def by simp
  show ?thesis
  proof (cases "rotate_scan (accounts p1) (currentIndex p) t_scan 1")
    case None
    with res have r: "\<not> r" and p': "p' = p1" by simp_all
    from None have none: "\<And>j. 1 \<le> j \<Longrightarrow> j \<le> length (accounts p) \<Longrightarrow>
        \<not> available t_scan (accounts p1 ! ((currentIndex p + j) mod length (accounts p)))"
      unfolding rotate_scan_None len by blast
    show ?thesis
      using r none accs cur cool unfolding p' cd_def by auto
  next
    case (Some k)
    with res have r: "r" and p': "p' = p1\<lparr>currentIndex := k\<rparr>" by simp_all
    from rotate_scan_Some [OF Some] obtain j where j:
      "1 \<le> j" "j \<le> length (accounts p)" "k = (currentIndex p + j) mod length (accounts p)"
      "available t_scan (accounts p1 ! ((currentIndex p + j) mod length (accounts p)))"
      "\<forall>j'. 1 \<le> j' \<and> j' < j \<longrightarrow>
         \<not> available t_scan (accounts p1 ! ((currentIndex p + j') mod length (accounts p)))"
      unfolding len by blast
    have ex: "\<exists>k'. 1 \<le> k' \<and> k' \<le> length (accounts p)
                \<and> currentIndex p' = (currentIndex p + k') mod length (accounts p)
                \<and> available t_scan (accounts p' ! currentIndex p')
                \<and> (\<forall>j'. 1 \<le> j' \<and> j' < k' \<longrightarrow>
                      \<not> available t_scan
                          (accounts p' ! ((currentIndex p + j') mod length (accounts p))))"
      using j unfolding p' by (intro exI [of _ j]) simp
    have "accounts p' = accounts p1" "cooldownMs p' = cooldownMs p"
      unfolding p' using cool by simp_all
    moreover have "\<not> (\<forall>i. 1 \<le> i \<and> i \<le> length (accounts p)
                 \<longrightarrow> \<not> available t_scan
                        (accounts p' ! ((currentIndex p + i) mod length (accounts p))))"
      using j(1,2,4) unfolding p' by auto
    ultimately show ?thesis
      using r ex accs unfolding cd_def by simp
  qed
qed

theorem markLimitedAndRotate_rotation_witness:
  "markLimitedAndRotate None 1000 1000 pool_ABC
     = (True, pool_ABC\<lparr>accounts := (accounts pool_ABC)
                          [0 := (accounts pool_ABC ! 0)\<lparr>rateLimitedUntil := Some 301000\<rparr>],
                       currentIndex := 1\<rparr>)
   \<and> available 1000 (accounts pool_ABC ! 1)
   \<and> markLimitedAndRotate None 1000 1000 pool_A
     = (False, pool_A\<lparr>accounts := [(accounts pool_A ! 0)\<lparr>rateLimitedUntil := Some 301000\<rparr>]\<rparr>)
   \<and> \<not> available 1000 ((accounts pool_A ! 0)\<lparr>rateLimitedUntil := Some 301000\<rparr>)"
proof -
  obtain r p' where h: "markLimitedAndRotate None 1000 1000 pool_ABC = (r, p')"
    by (cases "markLimitedAndRotate None 1000 1000 pool_ABC")
  obtain r2 p2 where h2: "markLimitedAndRotate None 1000 1000 pool_A = (r2, p2)"
    by (cases "markLimitedAndRotate None 1000 1000 pool_A")
  note t = markLimitedAndRotate_rotation [OF h] markLimitedAndRotate_rotation [OF h2]
  have "markLimitedAndRotate None 1000 1000 pool_ABC
     = (True, pool_ABC\<lparr>accounts := (accounts pool_ABC)
                          [0 := (accounts pool_ABC ! 0)\<lparr>rateLimitedUntil := Some 301000\<rparr>],
                       currentIndex := 1\<rparr>)"
    by (simp add: markLimitedAndRotate_def currentAccount_def pool_ABC_def available_def
        rotate_scan.simps)
  moreover have "markLimitedAndRotate None 1000 1000 pool_A
     = (False, pool_A\<lparr>accounts := [(accounts pool_A ! 0)\<lparr>rateLimitedUntil := Some 301000\<rparr>]\<rparr>)"
    by (simp add: markLimitedAndRotate_def currentAccount_def pool_A_def available_def
        rotate_scan.simps)
  ultimately show ?thesis
    using t by (simp add: available_def pool_ABC_def pool_A_def)
qed

subsection \<open>The status summary\<close>

lemma status_parts_length: "length (status_parts now cur k accs) = length accs"
  by (induction accs arbitrary: k) simp_all

lemma status_parts_nth:
  "i < length accs \<Longrightarrow> status_parts now cur k accs ! i = status_part now cur (k + i) (accs ! i)"
proof (induction accs arbitrary: k i)
  case Nil
  then show ?case by simp
next
  case (Cons a accs)
  then show ?case by (cases i) simp_all
qed

lemma ceil_secs_bounds: "1000 * (ceil_secs d - 1) < d \<and> d \<le> 1000 * ceil_secs d"
proof -
  define q where "q = (- d) div 1000"
  define r where "r = (- d) mod 1000"
  have "- d = 1000 * q + r" unfolding q_def r_def by simp
  then have d: "d = - (1000 * q) - r" by simp
  have r: "0 \<le> r" "r < 1000" unfolding r_def by simp_all
  have c: "ceil_secs d = - q" unfolding ceil_secs_def q_def by simp
  show ?thesis unfolding c using r by (simp add: d algebra_simps)
qed

lemma status_part_cases:
  assumes "0 \<le> now"
  shows "status_part now cur idx acct =
     (if idx = cur then ''>'' else '' '') @ '' '' @ name acct @
     (case rateLimitedUntil acct of
        None \<Rightarrow> '' [ok]''
      | Some u \<Rightarrow> if now < u then '' [limited '' @ show_int (ceil_secs (u - now)) @ ''s]''
                  else '' [ok]'')"
  using assms by (auto simp: status_part_def Let_def split: option.split)

lemma digit_set: "d < 10 \<Longrightarrow> digit d \<in> set ''0123456789''"
  unfolding digit_def by (rule nth_mem) simp

lemma show_nat_set: "set (show_nat n) \<subseteq> set ''0123456789''"
proof (induction n rule: show_nat.induct)
  case (1 n)
  show ?case
  proof (cases "n < 10")
    case True
    have "show_nat n = [digit n]" using True by (simp add: show_nat.simps [of n])
    then show ?thesis using digit_set [OF True] by simp
  next
    case False
    have "n mod 10 < 10" by simp
    from digit_set [OF this] have d: "digit (n mod 10) \<in> set ''0123456789''" .
    have "show_nat n = show_nat (n div 10) @ [digit (n mod 10)]"
      using False by (simp add: show_nat.simps [of n])
    then have "set (show_nat n) = set (show_nat (n div 10)) \<union> {digit (n mod 10)}" by simp
    with d "1.IH" [OF False] show ?thesis by blast
  qed
qed

lemma show_nat_no_newline: "CHR ''\<newline>'' \<notin> set (show_nat n)"
proof
  assume "CHR ''\<newline>'' \<in> set (show_nat n)"
  with show_nat_set [of n] have "CHR ''\<newline>'' \<in> set ''0123456789''" by blast
  then show False by simp
qed

lemma show_int_no_newline: "CHR ''\<newline>'' \<notin> set (show_int i)"
  unfolding show_int_def by (simp add: show_nat_no_newline)

lemma join_with_avoids:
  "c \<notin> set sep \<Longrightarrow> \<forall>x \<in> set parts. c \<notin> set x \<Longrightarrow> c \<notin> set (join_with sep parts)"
  by (induction sep parts rule: join_with.induct) auto

lemma status_part_no_newline:
  "CHR ''\<newline>'' \<notin> set (name acct) \<Longrightarrow> CHR ''\<newline>'' \<notin> set (status_part now cur idx acct)"
  unfolding status_part_def Let_def by (simp add: show_int_no_newline split: option.split)

lemma status_parts_no_newline:
  "\<forall>acct \<in> set accs. CHR ''\<newline>'' \<notin> set (name acct) \<Longrightarrow>
     \<forall>x \<in> set (status_parts now cur k accs). CHR ''\<newline>'' \<notin> set x"
  by (induction accs arbitrary: k) (simp_all add: status_part_no_newline)

lemma digit_value: "d < 10 \<Longrightarrow> (of_char (digit d) :: nat) = 48 + d"
proof -
  assume "d < 10"
  then have "d \<in> {0, 1, 2, 3, 4, 5, 6, 7, 8, 9}" by auto
  then show ?thesis by (auto simp: digit_def)
qed

lemma decimal_show_nat: "decimal_value (show_nat n) = n"
proof (induction n rule: show_nat.induct)
  case (1 n)
  show ?case
  proof (cases "n < 10")
    case True
    then show ?thesis by (simp add: show_nat.simps [of n] decimal_value_def digit_value)
  next
    case False
    have "n mod 10 < 10" by simp
    from "1.IH" [OF False] False digit_value [OF this] show ?thesis
      by (simp add: show_nat.simps [of n] decimal_value_def)
  qed
qed

lemma getStatus_pool_ABC: "getStatus 1000 pool_ABC = ''> A [limited 10s],   B [ok],   C [ok]''"
  by (simp add: getStatus_def pool_ABC_def status_part_def show_int_def show_nat.simps
      ceil_secs_def digit_def)

text \<open>
  Claim C10 as stated fails: the summary is not a line per account. For the pool of
  three accounts it is one line, the three entries joined by a comma and a space.
\<close>

theorem getStatus_one_line_counterexample:
  "length (accounts pool_ABC) = 3
   \<and> getStatus 1000 pool_ABC = ''> A [limited 10s],   B [ok],   C [ok]''
   \<and> CHR ''\<newline>'' \<notin> set (getStatus 1000 pool_ABC)"
  by (simp add: getStatus_pool_ABC) (simp add: pool_ABC_def)

text \<open>
  Claim C10, amended. For an empty pool \<open>getStatus\<close> returns the no-pool message. For a
  non-empty pool it returns one entry per account, in the order of the pool, joined by
  \<open>", "\<close> (a single line when no account name has a line break). The entry of the
  current account starts with \<open>>\<close>, every other entry with a space; after the name, an
  account whose \<open>rateLimitedUntil\<close> is null or not in the future is shown as \<open>[ok]\<close>, and
  one whose \<open>rateLimitedUntil\<close> lies in the future as \<open>[limited Ns]\<close>, where \<open>N\<close> is the
  remaining time in whole seconds, rounded up, in decimal. The clock is not negative.
\<close>

theorem getStatus_summary:
  assumes "0 \<le> now"
  shows "(accounts p = [] \<longrightarrow> getStatus now p = ''No pool configured'')
       \<and> (accounts p \<noteq> [] \<longrightarrow>
            (\<exists>parts. getStatus now p = join_with '', '' parts
               \<and> length parts = length (accounts p)
               \<and> (\<forall>i < length (accounts p).
                    parts ! i =
                      (if i = currentIndex p then ''>'' else '' '') @ '' '' @ name (accounts p ! i) @
                      (case rateLimitedUntil (accounts p ! i) of
                         None \<Rightarrow> '' [ok]''
                       | Some u \<Rightarrow>
                           if now < u
                           then '' [limited '' @ show_int (ceil_secs (u - now)) @ ''s]''
                           else '' [ok]''))))
       \<and> (\<forall>u. now < u \<longrightarrow>
              1000 * (ceil_secs (u - now) - 1) < u - now \<and> u - now \<le> 1000 * ceil_secs (u - now)
              \<and> int (decimal_value (show_int (ceil_secs (u - now)))) = ceil_secs (u - now))
       \<and> ((\<forall>a \<in> set (accounts p). CHR ''\<newline>'' \<notin> set (name a))
              \<longrightarrow> CHR ''\<newline>'' \<notin> set (getStatus now p))"
proof (intro conjI impI allI)
  assume "accounts p = []"
  then show "getStatus now p = ''No pool configured''" by (simp add: getStatus_def)
next
  assume ne: "accounts p \<noteq> []"
  let ?parts = "status_parts now (currentIndex p) 0 (accounts p)"
  have "getStatus now p = join_with '', '' ?parts" using ne by (simp add: getStatus_def)
  moreover have "length ?parts = length (accounts p)" by (rule status_parts_length)
  moreover have "\<forall>i < length (accounts p).
      ?parts ! i =
        (if i = currentIndex p then ''>'' else '' '') @ '' '' @ name (accounts p ! i) @
        (case rateLimitedUntil (accounts p ! i) of
           None \<Rightarrow> '' [ok]''
         | Some u \<Rightarrow>
             if now < u then '' [limited '' @ show_int (ceil_secs (u - now)) @ ''s]''
             else '' [ok]'')"
    using status_part_cases [OF assms] by (simp add: status_parts_nth)
  ultimately show "\<exists>parts. getStatus now p = join_with '', '' parts
               \<and> length parts = length (accounts p)
               \<and> (\<forall>i < length (accounts p).
                    parts ! i =
                      (if i = currentIndex p then ''>'' else '' '') @ '' '' @ name (accounts p ! i) @
                      (case rateLimitedUntil (accounts p ! i) of
                         None \<Rightarrow> '' [ok]''
                       | Some u \<Rightarrow>
                           if now < u
                           then '' [limited '' @ show_int (ceil_secs (u - now)) @ ''s]''
                           else '' [ok]''))"
    by blast
next
  fix u :: int
  show "1000 * (ceil_secs (u - now) - 1) < u - now" using ceil_secs_bounds [of "u - now"] by simp
  show "u - now \<le> 1000 * ceil_secs (u - now)" using ceil_secs_bounds [of "u - now"] by simp
  assume "now < u"
  then have "0 \<le> ceil_secs (u - now)" using ceil_secs_bounds [of "u - now"] by linarith
  then show "int (decimal_value (show_int (ceil_secs (u - now)))) = ceil_secs (u - now)"
    by (simp add: show_int_def decimal_show_nat)
next
  assume names: "\<forall>a \<in> set (accounts p). CHR ''\<newline>'' \<notin> set (name a)"
  show "CHR ''\<newline>'' \<notin> set (getStatus now p)"
  proof (cases "accounts p = []")
    case True
    then show ?thesis by (simp add: getStatus_def)
  next
    case False
    have "CHR ''\<newline>'' \<notin> set (join_with '', '' (status_parts now (currentIndex p) 0 (accounts p)))"
      by (rule join_with_avoids) (simp, rule status_parts_no_newline [OF names])
    with False show ?thesis by (simp add: getStatus_def)
  qed
qed

theorem getStatus_summary_witness:
  "(0::int) \<le> 1000 \<and> accounts pool_ABC \<noteq> [] \<and> (1000::int) < 11000
   \<and> getStatus 1000 pool_ABC = join_with '', '' [''> A [limited 10s]'', ''  B [ok]'', ''  C [ok]'']
   \<and> ceil_secs (11000 - 1000) = 10
   \<and> getStatus 1000 (pool_ABC\<lparr>accounts := []\<rparr>) = ''No pool configured''
   \<and> CHR ''\<newline>'' \<notin> set (getStatus 1000 pool_ABC)"
proof -
  have h: "(0::int) \<le> 1000" by simp
  have names: "\<forall>a \<in> set (accounts pool_ABC). CHR ''\<newline>'' \<notin> set (name a)"
    by (simp add: pool_ABC_def)
  from getStatus_summary [OF h, of "pool_ABC\<lparr>accounts := []\<rparr>"]
  have e: "getStatus 1000 (pool_ABC\<lparr>accounts := []\<rparr>) = ''No pool configured''" by simp
  from getStatus_summary [OF h, of pool_ABC] names
  have n: "CHR ''\<newline>'' \<notin> set (getStatus 1000 pool_ABC)" by blast
  have "accounts pool_ABC \<noteq> []" by (simp add: pool_ABC_def)
  with e n show ?thesis by (simp add: getStatus_pool_ABC ceil_secs_def)
qed

subsection \<open>Discovery and sanitising of account names\<close>

lemma buildAccounts_dirs:
  "a \<in> set (buildAccounts join ex names root) \<Longrightarrow>
     configDir a = join root ''instances'' (sanitizeName (name a)) \<and> name a \<in> set names
     \<and> ex (configDir a) \<and> rateLimitedUntil a = None"
  by (induction names) (auto simp: Let_def split: if_splits)

lemma trim_id: "s \<noteq> [] \<Longrightarrow> \<not> is_space (hd s) \<Longrightarrow> \<not> is_space (last s) \<Longrightarrow> trim s = s"
proof -
  assume s: "s \<noteq> []" and h: "\<not> is_space (hd s)" and l: "\<not> is_space (last s)"
  from s h have 1: "dropWhile is_space s = s" by (cases s) simp_all
  from s l have 2: "dropWhile is_space (rev s) = rev s" by (cases "rev s") (simp_all add: hd_rev [symmetric])
  show ?thesis by (simp add: trim_def 1 2)
qed

lemma split_on_none: "sep \<notin> set s \<Longrightarrow> split_on sep s = [s]"
  by (induction s) auto

lemma split_on_first: "sep \<notin> set a \<Longrightarrow> split_on sep (a @ sep # b) = a # split_on sep b"
  by (induction a) auto

lemma loadFromEnv_single:
  assumes "nm \<noteq> []" "\<not> is_space (hd nm)" "\<not> is_space (last nm)" "CHR '','' \<notin> set nm"
  shows "loadFromEnv (Some nm) = Some [nm]"
  using assms by (simp add: loadFromEnv_def split_on_none trim_id)


lemma char_facts:
  "is_space CHR '' ''" "\<not> is_space CHR ''-''" "\<not> is_space CHR '':''" "\<not> is_space CHR ''n''"
  "\<not> is_space CHR ''#''" "is_name_char CHR ''-''" "\<not> is_name_char CHR '' ''"
  "\<not> is_name_char CHR '':''" "is_line_terminator CHR ''\<newline>''"
  by (simp_all add: is_space_def is_name_char_def is_line_terminator_def)

lemma list_entry_trim:
  assumes "nm \<noteq> []" "\<not> is_space (last nm)"
  shows "trim (''  - name: '' @ nm) = ''- name: '' @ nm"
proof -
  have l: "last (''- name: '' @ nm) = last nm" using assms by simp
  have "trim (''- name: '' @ nm) = ''- name: '' @ nm"
    by (rule trim_id) (simp_all add: l assms char_facts)
  moreover have "trim (''  - name: '' @ nm) = trim (''- name: '' @ nm)"
    by (simp add: trim_def char_facts)
  ultimately show ?thesis by simp
qed

lemma list_entry_line:
  assumes "nm \<noteq> []" "\<not> is_space (hd nm)" "\<not> is_space (last nm)"
    "\<forall>c \<in> set nm. \<not> is_line_terminator c" "\<not> is_quote (hd nm)" "\<not> is_quote (last nm)"
  shows "yaml_line True (''  - name: '' @ nm) = Push nm"
proof -
  have t: "trim (''  - name: '' @ nm) = ''- name: '' @ nm"
    using list_entry_trim [OF assms(1,3)] .
  have ak: "\<not> accounts_key (''  - name: '' @ nm)" by (simp add: accounts_key_def)
  have ls: "leading_space (''  - name: '' @ nm)" by (simp add: leading_space_def char_facts)
  have ind: "length (takeWhile is_space (''  - name: '' @ nm)) = 2" by (simp add: char_facts)
  have mk: "map_key (''  - name: '' @ nm) = None"
    by (simp add: map_key_def char_facts starts_with_char_def)
  have d: "dropWhile is_space nm = nm" using assms(1,2) by (cases nm) simp_all
  have tw: "takeWhile (\<lambda>x. \<not> is_line_terminator x) nm = nm" using assms(4) by (simp add: takeWhile_eq_all_conv)
  have inl: "inline_name (''- name: '' @ nm) = Some nm"
    using assms(1) by (simp add: inline_name_def char_facts d tw)
  have tr: "trim nm = nm" using assms by (simp add: trim_id)
  have sq: "strip_quotes nm = nm" using assms(1,5,6) by (cases nm) (simp_all add: strip_quotes_def)
  show ?thesis
    unfolding yaml_line_def t Let_def using ak ls ind mk inl tr sq assms(1)
    by (simp add: starts_with_char_def)
qed

lemma parse_list_entry:
  assumes "nm \<noteq> []" "\<not> is_space (hd nm)" "\<not> is_space (last nm)"
    "\<forall>c \<in> set nm. \<not> is_line_terminator c" "\<not> is_quote (hd nm)" "\<not> is_quote (last nm)"
  shows "parseYamlAccountNames (''accounts:\<newline>  - name: '' @ nm) = Some [nm]"
proof -
  have nl: "CHR ''\<newline>'' \<notin> set nm" using assms(4) char_facts(9) by blast
  have "''accounts:\<newline>  - name: '' @ nm = ''accounts:'' @ CHR ''\<newline>'' # (''  - name: '' @ nm)" by simp
  then have "split_on CHR ''\<newline>'' (''accounts:\<newline>  - name: '' @ nm)
      = ''accounts:'' # split_on CHR ''\<newline>'' (''  - name: '' @ nm)"
    using split_on_first [of "CHR ''\<newline>''" "''accounts:''" "''  - name: '' @ nm"] by simp
  also have "split_on CHR ''\<newline>'' (''  - name: '' @ nm) = [''  - name: '' @ nm]"
    by (rule split_on_none) (simp add: nl)
  finally have sp: "split_on CHR ''\<newline>'' (''accounts:\<newline>  - name: '' @ nm)
      = [''accounts:'', ''  - name: '' @ nm]" .
  have e: "yaml_line False ''accounts:'' = Enter" by (simp add: yaml_line_def accounts_key_def starts_with_char_def char_facts)
  show ?thesis
    unfolding parseYamlAccountNames_def sp Let_def
    using e list_entry_line [OF assms] by simp
qed


lemma name_char_facts:
  assumes "is_name_char c"
  shows "\<not> is_space c" "c \<noteq> CHR '':''" "c \<noteq> CHR ''#''" "c \<noteq> CHR '',''"
    "c \<noteq> CHR ''\<newline>''" "\<not> is_line_terminator c" "\<not> is_quote c"
proof -
  have n: "\<not> is_name_char CHR '':''" "\<not> is_name_char CHR ''#''" "\<not> is_name_char CHR '',''"
    "\<not> is_name_char CHR ''\<newline>''" "\<not> is_name_char CHR 0x22" "\<not> is_name_char CHR 0x27"
    by (simp_all add: is_name_char_def)
  from n(1-4) assms show "c \<noteq> CHR '':''" "c \<noteq> CHR ''#''" "c \<noteq> CHR '',''" "c \<noteq> CHR ''\<newline>''"
    by blast+
  from n(5,6) assms show "\<not> is_quote c" unfolding is_quote_def by blast
  from assms have r: "(97 \<le> (of_char c :: nat) \<and> (of_char c :: nat) \<le> 122)
      \<or> (65 \<le> (of_char c :: nat) \<and> (of_char c :: nat) \<le> 90)
      \<or> (48 \<le> (of_char c :: nat) \<and> (of_char c :: nat) \<le> 57)
      \<or> (of_char c :: nat) = 95 \<or> (of_char c :: nat) = 45"
    unfolding is_name_char_def Let_def by auto
  then show "\<not> is_space c" unfolding is_space_def by auto
  from r show "\<not> is_line_terminator c" unfolding is_line_terminator_def by auto
qed

lemma map_entry_line:
  assumes "nm \<noteq> []" "\<forall>c \<in> set nm. is_name_char c"
  shows "yaml_line True (''  '' @ nm @ '':'') = Push nm"
proof -
  from assms obtain h t where nm: "nm = h # t" by (cases nm) simp_all
  with assms(2) have h: "is_name_char h" by simp
  note hf = name_char_facts [OF h]
  have tr0: "trim (nm @ '':'') = nm @ '':''"
    by (rule trim_id) (simp_all add: nm hf char_facts)
  have "trim (''  '' @ nm @ '':'') = trim (nm @ '':'')" by (simp add: trim_def char_facts)
  with tr0 have t: "trim (''  '' @ nm @ '':'') = nm @ '':''" by simp
  have ak: "\<not> accounts_key (''  '' @ nm @ '':'')" by (simp add: accounts_key_def)
  have ls: "leading_space (''  '' @ nm @ '':'')" by (simp add: leading_space_def char_facts)
  have ind: "length (takeWhile is_space (''  '' @ nm @ '':'')) = 2"
    by (simp add: char_facts nm hf)
  have tw: "takeWhile is_name_char (nm @ '':'') = nm"
    using assms(2) by (simp add: takeWhile_append2 char_facts)
  have dw: "dropWhile is_name_char (nm @ '':'') = '':''"
    using assms(2) by (simp add: dropWhile_append2 char_facts)
  have mk: "map_key (''  '' @ nm @ '':'') = Some nm"
    using assms(1) by (simp add: map_key_def char_facts tw dw starts_with_char_def)
  have st: "\<not> starts_with_char CHR ''#'' (nm @ '':'')"
    by (simp add: starts_with_char_def nm hf)
  show ?thesis
    unfolding yaml_line_def t Let_def using ak ls ind mk st assms(1) by simp
qed

lemma parse_map_entry:
  assumes "nm \<noteq> []" "\<forall>c \<in> set nm. is_name_char c"
  shows "parseYamlAccountNames (''accounts:\<newline>  '' @ nm @ '':'') = Some [nm]"
proof -
  have nl: "CHR ''\<newline>'' \<notin> set nm" using assms(2) name_char_facts(5) by blast
  have "''accounts:\<newline>  '' @ nm @ '':'' = ''accounts:'' @ CHR ''\<newline>'' # (''  '' @ nm @ '':'')" by simp
  then have "split_on CHR ''\<newline>'' (''accounts:\<newline>  '' @ nm @ '':'')
      = ''accounts:'' # split_on CHR ''\<newline>'' (''  '' @ nm @ '':'')"
    using split_on_first [of "CHR ''\<newline>''" "''accounts:''" "''  '' @ nm @ '':''"] by simp
  also have "split_on CHR ''\<newline>'' (''  '' @ nm @ '':'') = [''  '' @ nm @ '':'']"
    by (rule split_on_none) (simp add: nl)
  finally have sp: "split_on CHR ''\<newline>'' (''accounts:\<newline>  '' @ nm @ '':'')
      = [''accounts:'', ''  '' @ nm @ '':'']" .
  have e: "yaml_line False ''accounts:'' = Enter"
    by (simp add: yaml_line_def accounts_key_def starts_with_char_def char_facts)
  show ?thesis
    unfolding parseYamlAccountNames_def sp Let_def
    using e map_entry_line [OF assms] by simp
qed

lemma buildAccounts_admits:
  "nm \<in> set names \<Longrightarrow> ex (join root ''instances'' (sanitizeName nm)) \<Longrightarrow>
     \<lparr>name = nm, configDir = join root ''instances'' (sanitizeName nm), rateLimitedUntil = None\<rparr>
       \<in> set (buildAccounts join ex names root)"
  by (induction names) (auto simp: Let_def)

lemma new_pool_dirs:
  "a \<in> set (accounts (new_pool join ex root cooldown envAccounts yaml profiles)) \<Longrightarrow>
     configDir a = join root ''instances'' (sanitizeName (name a))"
proof -
  assume "a \<in> set (accounts (new_pool join ex root cooldown envAccounts yaml profiles))"
  then obtain names where "a \<in> set (buildAccounts join ex names root)"
    by (simp add: new_pool_def Let_def)
  then show ?thesis by (simp add: buildAccounts_dirs)
qed

lemma sanitize_example: "sanitizeName ''My-Acct_1'' = ''my-acct_1''"
  by (simp add: sanitizeName_def is_name_char_def to_lower_def char_of_def bit_Suc_0_iff)

text \<open>
  Claim C8. The credential directory of an account is a function of its name alone:
  two accounts of the same name, in pools built over the same root from any sources
  (the explicit list, either layout of the config file, the profiles file), have the
  same directory, \<open>join(root, "instances", sanitizeName(name))\<close>; and a discovered name
  whose directory exists is admitted with that directory. Each source hands a name on
  unchanged: the explicit list, when the name has no comma and no white space at either
  end; a \<open>- name:\<close> entry of the list layout, when it has no line break and no white
  space or quote at either end; a key of the mapping layout, when it is made of
  \<open>[A-Za-z0-9_-]\<close>, the only keys that layout reads.
\<close>

theorem same_name_same_directory:
  "(a \<in> set (accounts (new_pool join existsSync root cooldown envAccounts yaml profiles))
      \<and> b \<in> set (accounts (new_pool join existsSync' root cooldown' envAccounts' yaml' profiles'))
      \<and> name a = name b
        \<longrightarrow> configDir a = configDir b
            \<and> configDir a = join root ''instances'' (sanitizeName (name a)))
   \<and> (nm \<in> set names \<and> existsSync (join root ''instances'' (sanitizeName nm))
        \<longrightarrow> \<lparr>name = nm, configDir = join root ''instances'' (sanitizeName nm),
              rateLimitedUntil = None\<rparr> \<in> set (buildAccounts join existsSync names root))
   \<and> (nm \<noteq> [] \<and> \<not> is_space (hd nm) \<and> \<not> is_space (last nm) \<and> CHR '','' \<notin> set nm
        \<longrightarrow> loadFromEnv (Some nm) = Some [nm])
   \<and> (nm \<noteq> [] \<and> \<not> is_space (hd nm) \<and> \<not> is_space (last nm)
        \<and> (\<forall>c \<in> set nm. \<not> is_line_terminator c) \<and> \<not> is_quote (hd nm) \<and> \<not> is_quote (last nm)
        \<longrightarrow> parseYamlAccountNames (''accounts:\<newline>  - name: '' @ nm) = Some [nm])
   \<and> (nm \<noteq> [] \<and> (\<forall>c \<in> set nm. is_name_char c)
        \<longrightarrow> parseYamlAccountNames (''accounts:\<newline>  '' @ nm @ '':'') = Some [nm])"
proof (intro conjI impI)
  assume h: "a \<in> set (accounts (new_pool join existsSync root cooldown envAccounts yaml profiles))
      \<and> b \<in> set (accounts (new_pool join existsSync' root cooldown' envAccounts' yaml' profiles'))
      \<and> name a = name b"
  from h new_pool_dirs [of a] show da: "configDir a = join root ''instances'' (sanitizeName (name a))"
    by blast
  from h new_pool_dirs [of b] have "configDir b = join root ''instances'' (sanitizeName (name b))"
    by blast
  with da h show "configDir a = configDir b" by simp
next
  assume "nm \<in> set names \<and> existsSync (join root ''instances'' (sanitizeName nm))"
  then show "\<lparr>name = nm, configDir = join root ''instances'' (sanitizeName nm),
              rateLimitedUntil = None\<rparr> \<in> set (buildAccounts join existsSync names root)"
    by (simp add: buildAccounts_admits)
next
  assume "nm \<noteq> [] \<and> \<not> is_space (hd nm) \<and> \<not> is_space (last nm) \<and> CHR '','' \<notin> set nm"
  then show "loadFromEnv (Some nm) = Some [nm]" by (simp add: loadFromEnv_single)
next
  assume "nm \<noteq> [] \<and> \<not> is_space (hd nm) \<and> \<not> is_space (last nm)
        \<and> (\<forall>c \<in> set nm. \<not> is_line_terminator c) \<and> \<not> is_quote (hd nm) \<and> \<not> is_quote (last nm)"
  then show "parseYamlAccountNames (''accounts:\<newline>  - name: '' @ nm) = Some [nm]"
    by (intro parse_list_entry) simp_all
next
  assume "nm \<noteq> [] \<and> (\<forall>c \<in> set nm. is_name_char c)"
  then show "parseYamlAccountNames (''accounts:\<newline>  '' @ nm @ '':'') = Some [nm]"
    by (intro parse_map_entry) simp_all
qed

theorem same_name_same_directory_witness:
  "accounts (new_pool join_slash every_dir ''/ccs'' 300000 (Some ''My-Acct_1'') None None)
     = [\<lparr>name = ''My-Acct_1'', configDir = ''/ccs/instances/my-acct_1'', rateLimitedUntil = None\<rparr>]
   \<and> accounts (new_pool join_slash every_dir ''/ccs'' 60000 None
        (Some (''accounts:\<newline>  '' @ ''My-Acct_1'' @ '':'')) None)
     = [\<lparr>name = ''My-Acct_1'', configDir = ''/ccs/instances/my-acct_1'', rateLimitedUntil = None\<rparr>]
   \<and> accounts (new_pool join_slash every_dir ''/ccs'' 60000 None
        (Some (''accounts:\<newline>  - name: '' @ ''My-Acct_1'')) None)
     = [\<lparr>name = ''My-Acct_1'', configDir = ''/ccs/instances/my-acct_1'', rateLimitedUntil = None\<rparr>]
   \<and> join_slash ''/ccs'' ''instances'' (sanitizeName ''My-Acct_1'') = ''/ccs/instances/my-acct_1''
   \<and> \<lparr>name = ''My-Acct_1'', configDir = ''/ccs/instances/my-acct_1'', rateLimitedUntil = None\<rparr>
       \<in> set (buildAccounts join_slash every_dir [''My-Acct_1''] ''/ccs'')
   \<and> loadFromEnv (Some ''My-Acct_1'') = Some [''My-Acct_1'']
   \<and> parseYamlAccountNames (''accounts:\<newline>  - name: '' @ ''My-Acct_1'') = Some [''My-Acct_1'']
   \<and> parseYamlAccountNames (''accounts:\<newline>  '' @ ''My-Acct_1'' @ '':'') = Some [''My-Acct_1'']
   \<and> loadFromEnv (Some ''my account'') = Some [''my account'']
   \<and> parseYamlAccountNames (''accounts:\<newline>  - name: '' @ ''my account'') = Some [''my account'']
   \<and> accounts (new_pool join_slash every_dir ''/ccs'' 300000 (Some ''my account'') None None)
     = accounts (new_pool join_slash every_dir ''/ccs'' 60000 None
          (Some (''accounts:\<newline>  - name: '' @ ''my account'')) None)"
proof -
  let ?acct = "\<lparr>name = ''My-Acct_1'', configDir = ''/ccs/instances/my-acct_1'',
                rateLimitedUntil = None\<rparr>"
  let ?y = "Some (''accounts:\<newline>  '' @ ''My-Acct_1'' @ '':'')"
  note t = same_name_same_directory [of ?acct join_slash every_dir "''/ccs''" 300000
      "Some ''My-Acct_1''" None None ?acct every_dir 60000 None ?y None
      "''My-Acct_1''" "[''My-Acct_1'']"]
  note u = same_name_same_directory [of ?acct join_slash every_dir "''/ccs''" 300000
      "Some ''my account''" None None ?acct every_dir 60000 None ?y None
      "''my account''" "[''my account'']"]
  note t1 = t [THEN conjunct1]
  note t2 = t [THEN conjunct2, THEN conjunct1]
  note t3 = t [THEN conjunct2, THEN conjunct2, THEN conjunct1]
  note t4 = t [THEN conjunct2, THEN conjunct2, THEN conjunct2, THEN conjunct1]
  note t5 = t [THEN conjunct2, THEN conjunct2, THEN conjunct2, THEN conjunct2]
  note u3 = u [THEN conjunct2, THEN conjunct2, THEN conjunct1]
  note u4 = u [THEN conjunct2, THEN conjunct2, THEN conjunct2, THEN conjunct1]
  have none: "loadFromEnv None = None" by (simp add: loadFromEnv_def)
  have h3: "''My-Acct_1'' \<noteq> [] \<and> \<not> is_space (hd ''My-Acct_1'') \<and> \<not> is_space (last ''My-Acct_1'')
      \<and> CHR '','' \<notin> set ''My-Acct_1''"
    by (simp add: is_space_def)
  have h4: "''My-Acct_1'' \<noteq> [] \<and> \<not> is_space (hd ''My-Acct_1'') \<and> \<not> is_space (last ''My-Acct_1'')
      \<and> (\<forall>c \<in> set ''My-Acct_1''. \<not> is_line_terminator c) \<and> \<not> is_quote (hd ''My-Acct_1'')
      \<and> \<not> is_quote (last ''My-Acct_1'')"
    by (simp add: is_space_def is_line_terminator_def is_quote_def)
  have h5: "''My-Acct_1'' \<noteq> [] \<and> (\<forall>c \<in> set ''My-Acct_1''. is_name_char c)"
    by (simp add: is_name_char_def)
  have g3: "''my account'' \<noteq> [] \<and> \<not> is_space (hd ''my account'') \<and> \<not> is_space (last ''my account'')
      \<and> CHR '','' \<notin> set ''my account''"
    by (simp add: is_space_def)
  have g4: "''my account'' \<noteq> [] \<and> \<not> is_space (hd ''my account'') \<and> \<not> is_space (last ''my account'')
      \<and> (\<forall>c \<in> set ''my account''. \<not> is_line_terminator c) \<and> \<not> is_quote (hd ''my account'')
      \<and> \<not> is_quote (last ''my account'')"
    by (simp add: is_space_def is_line_terminator_def is_quote_def)
  note e = mp [OF t3 h3]
  note l = mp [OF t4 h4]
  note k = mp [OF t5 h5]
  note e' = mp [OF u3 g3]
  note l' = mp [OF u4 g4]
  have p1: "accounts (new_pool join_slash every_dir ''/ccs'' 300000 (Some ''My-Acct_1'') None None)
     = [?acct]"
    unfolding new_pool_def e by (simp add: sanitize_example join_slash_def every_dir_def)
  have p2: "accounts (new_pool join_slash every_dir ''/ccs'' 60000 None ?y None) = [?acct]"
    unfolding new_pool_def none using k
    by (simp add: sanitize_example join_slash_def every_dir_def)
  have p3: "accounts (new_pool join_slash every_dir ''/ccs'' 60000 None
        (Some (''accounts:\<newline>  - name: '' @ ''My-Acct_1'')) None) = [?acct]"
    unfolding new_pool_def none using l
    by (simp add: sanitize_example join_slash_def every_dir_def)
  have m1: "?acct \<in> set (accounts (new_pool join_slash every_dir ''/ccs'' 300000
      (Some ''My-Acct_1'') None None))" unfolding p1 by simp
  have m2: "?acct \<in> set (accounts (new_pool join_slash every_dir ''/ccs'' 60000 None ?y None))"
    unfolding p2 by simp
  from m1 m2 have m: "?acct \<in> set (accounts (new_pool join_slash every_dir ''/ccs'' 300000
      (Some ''My-Acct_1'') None None))
      \<and> ?acct \<in> set (accounts (new_pool join_slash every_dir ''/ccs'' 60000 None ?y None))
      \<and> name ?acct = name ?acct" by simp
  from mp [OF t1 m, THEN conjunct2]
  have d: "join_slash ''/ccs'' ''instances'' (sanitizeName ''My-Acct_1'') = ''/ccs/instances/my-acct_1''"
    by simp
  have h2: "''My-Acct_1'' \<in> set [''My-Acct_1'']
      \<and> every_dir (join_slash ''/ccs'' ''instances'' (sanitizeName ''My-Acct_1''))"
    by (simp add: every_dir_def)
  from mp [OF t2 h2]
  have b: "\<lparr>name = ''My-Acct_1'', configDir = ''/ccs/instances/my-acct_1'', rateLimitedUntil = None\<rparr>
       \<in> set (buildAccounts join_slash every_dir [''My-Acct_1''] ''/ccs'')"
    unfolding d .
  have q: "accounts (new_pool join_slash every_dir ''/ccs'' 300000 (Some ''my account'') None None)
     = accounts (new_pool join_slash every_dir ''/ccs'' 60000 None
          (Some (''accounts:\<newline>  - name: '' @ ''my account'')) None)"
    unfolding new_pool_def none using e' l' by simp
  from p1 p2 p3 d b e l k e' l' q show ?thesis by (intro conjI)
qed

section \<open>Properties of the streaming session engine\<close>

subsection \<open>The handlers, before and after settlement\<close>


lemma on_idle_unsettled:
  "\<not> settled s \<Longrightarrow> on_idle flushed finished now (m, s) =
     ((if seg_text s \<noteq> [] then [Callback SegmentEnd (seg_text s) (Some (seg_id s))] else [])
      @ (if seg_text s \<noteq> [] \<and> flushed = Rejects then []
         else if finished = Rejects then [Callback Done [] None]
         else [Callback Done [] None,
               Resolve (if fullContent s \<noteq> [] then fullContent s
                        else ''No response from Copilot.'')]),
      m\<lparr>isProcessing := False, queryStarted := None, currentTool := None,
        lastActivity := Some now, lastError := None, lastErrorTime := None\<rparr>,
      s\<lparr>settled := True, timerPending := False, subAll := False, subIdle := False,
        subError := False\<rparr>)"
  by (simp add: settle_def unsubscribe_def Let_def)

lemma on_error_unsettled:
  "\<not> settled s \<Longrightarrow> on_error now message (m, s) =
     ([Reject (if message \<noteq> [] then message else ''Unknown Copilot error'')],
      m\<lparr>isProcessing := False, queryStarted := None, currentTool := None,
        lastError := Some (take 100 (if message \<noteq> [] then message else ''Unknown Copilot error'')),
        lastErrorTime := Some now\<rparr>,
      s\<lparr>settled := True, timerPending := False, subAll := False, subIdle := False,
        subError := False\<rparr>)"
  by (simp add: settle_def unsubscribe_def Let_def)

lemma on_timeout_unsettled:
  "\<not> settled s \<Longrightarrow> on_timeout (m, s) =
     ([Reject ''Copilot response timed out''],
      m\<lparr>isProcessing := False, queryStarted := None, currentTool := None\<rparr>,
      s\<lparr>settled := True, timerPending := False, subAll := False, subIdle := False,
        subError := False\<rparr>)"
  by (simp add: settle_def unsubscribe_def)

lemma on_send_failed_unsettled:
  "\<not> settled s \<Longrightarrow> on_send_failed err (m, s) =
     ([Reject err], m\<lparr>isProcessing := False, queryStarted := None\<rparr>,
      s\<lparr>settled := True, timerPending := False, subAll := False, subIdle := False,
        subError := False\<rparr>)"
  by (simp add: settle_def unsubscribe_def)

lemma handlers_settled:
  assumes "settled s"
  shows "on_idle flushed finished now (m, s) = ([], m, s)"
    "on_error now message (m, s) = ([], m, s)"
    "on_timeout (m, s) = ([], m, s)" "on_send_failed err (m, s) = ([], m, s)"
  using assms by (simp_all add: settle_def)

lemmas handler_defs = on_idle.simps on_error.simps on_timeout.simps on_send_failed.simps

lemma terminal_ids:
  assumes "is_terminal sg" "deliver thr now sg (m, s) = (effs, m', s')"
  shows "seg_id s' = seg_id s \<and> seg_text s' = seg_text s \<and> seg_lastUpdate s' = seg_lastUpdate s
     \<and> receivedDelta s' = receivedDelta s \<and> fullContent s' = fullContent s
     \<and> (\<forall>ty c i. Callback ty c (Some i) \<in> set effs \<longrightarrow> i = seg_id s \<and> ty = SegmentEnd)"
proof (cases "settled s")
  case True
  with assms show ?thesis
    by (cases sg) (auto simp: handlers_settled simp del: handler_defs split: if_splits)
next
  case False
  with assms show ?thesis
    by (cases sg) (auto simp: on_idle_unsettled on_error_unsettled on_timeout_unsettled
        on_send_failed_unsettled simp del: handler_defs split: if_splits)
qed

lemma handleEvent_ids:
  assumes "handleEvent thr now e (m, s) = (effs, m', s')"
  shows "seg_id s \<le> seg_id s' \<and> (\<forall>ty c i. Callback ty c (Some i) \<in> set effs \<longrightarrow> i = seg_id s)
         \<and> (\<forall>x \<in> set effs. \<not> is_settlement x)"
  using assms by (cases e) (auto simp: Let_def split: if_splits)

lemma deliver_ids:
  assumes "deliver thr now sg (m, s) = (effs, m', s')"
  shows "seg_id s \<le> seg_id s' \<and> (\<forall>ty c i. Callback ty c (Some i) \<in> set effs \<longrightarrow> i = seg_id s)"
proof (cases sg)
  case (Event e)
  with assms handleEvent_ids [of thr now e m s effs m' s'] show ?thesis
    by (auto split: if_splits)
next
  case (SessionIdle a b)
  with assms terminal_ids [of sg thr now m s effs m' s'] show ?thesis by simp
next
  case (SessionError x)
  with assms terminal_ids [of sg thr now m s effs m' s'] show ?thesis by simp
next
  case TimeoutFired
  with assms terminal_ids [of sg thr now m s effs m' s'] show ?thesis by simp
next
  case (SendRejected x)
  with assms terminal_ids [of sg thr now m s effs m' s'] show ?thesis by simp
qed

lemma run_Cons:
  assumes "deliver thr now sg w = (e1, w1)" "run thr rest w1 = (e2, w2)"
  shows "run thr ((now, sg) # rest) w = (map (Pair now) e1 @ e2, w2)"
  using assms by simp

lemma run_ids:
  "run thr sigs (m, s) = (effs, m', s') \<Longrightarrow>
     seg_id s \<le> seg_id s' \<and> (\<forall>t ty c i. (t, Callback ty c (Some i)) \<in> set effs \<longrightarrow> seg_id s \<le> i)"
proof (induction sigs arbitrary: m s effs m' s')
  case Nil
  then show ?case by simp
next
  case (Cons x sigs)
  obtain now sg where x: "x = (now, sg)" by (cases x)
  obtain e1 m1 s1 where d: "deliver thr now sg (m, s) = (e1, m1, s1)" by (cases "deliver thr now sg (m, s)")
  obtain e2 m2 s2 where r: "run thr sigs (m1, s1) = (e2, m2, s2)" by (cases "run thr sigs (m1, s1)")
  from Cons.prems x d r have eq: "effs = map (Pair now) e1 @ e2" "m' = m2" "s' = s2" by simp_all
  from deliver_ids [OF d] Cons.IH [OF r] show ?case unfolding eq by fastforce
qed


lemma text_times_append: "text_times k (xs @ ys) = text_times k xs @ text_times k ys"
  by (simp add: text_times_def)

lemma text_times_mem:
  "t \<in> set (text_times k effs) \<longleftrightarrow> (\<exists>c. (t, Callback Text c (Some k)) \<in> set effs)"
proof
  assume "t \<in> set (text_times k effs)"
  then obtain e where e: "(t, e) \<in> set effs" "is_text_for k e"
    by (auto simp: text_times_def)
  then show "\<exists>c. (t, Callback Text c (Some k)) \<in> set effs"
    by (cases e) auto
next
  assume "\<exists>c. (t, Callback Text c (Some k)) \<in> set effs"
  then show "t \<in> set (text_times k effs)"
    by (force simp: text_times_def)
qed

lemma delta_step:
  "handleEvent thr now (MessageDelta d) (m, s) =
     (if thr < now - seg_lastUpdate s \<and> 20 < length (seg_text s @ d)
      then ([Callback Text (seg_text s @ d) (Some (seg_id s))], m,
            s\<lparr>fullContent := fullContent s @ d, receivedDelta := True,
              seg_text := seg_text s @ d, seg_lastUpdate := now\<rparr>)
      else ([], m, s\<lparr>fullContent := fullContent s @ d, receivedDelta := True,
                     seg_text := seg_text s @ d\<rparr>))"
  by (simp add: Let_def)

lemma terminal_effects:
  assumes "is_terminal sg" "deliver thr now sg (m, s) = (e1, m1, s1)"
  shows "text_times k (map (Pair now) e1) = [] \<and> seg_id s1 = seg_id s
       \<and> seg_lastUpdate s1 = seg_lastUpdate s \<and> receivedDelta s1 = receivedDelta s"
proof (cases "settled s")
  case True
  with assms show ?thesis
    by (cases sg) (auto simp: handlers_settled text_times_def simp del: handler_defs split: if_splits)
next
  case False
  with assms show ?thesis
    by (cases sg) (auto simp: on_idle_unsettled on_error_unsettled on_timeout_unsettled
        on_send_failed_unsettled text_times_def simp del: handler_defs split: if_splits)
qed

lemma event_text_step:
  assumes "handleEvent thr now e (m, s) = (e1, m1, s1)"
  shows "(text_times k (map (Pair now) e1) = []
           \<and> (receivedDelta s \<longrightarrow> receivedDelta s1)
           \<and> ((seg_id s1 = seg_id s \<and> seg_lastUpdate s1 = seg_lastUpdate s) \<or> seg_id s < seg_id s1))
       \<or> (text_times k (map (Pair now) e1) = (if k = seg_id s then [now] else [])
           \<and> seg_id s1 = seg_id s \<and> seg_lastUpdate s1 = now \<and> receivedDelta s1
           \<and> (receivedDelta s \<longrightarrow> thr < now - seg_lastUpdate s))"
proof (cases e)
  case (MessageDelta d)
  show ?thesis
  proof (cases "thr < now - seg_lastUpdate s \<and> 20 < length (seg_text s @ d)")
    case True
    with assms have "e1 = [Callback Text (seg_text s @ d) (Some (seg_id s))]"
      "s1 = s\<lparr>fullContent := fullContent s @ d, receivedDelta := True,
              seg_text := seg_text s @ d, seg_lastUpdate := now\<rparr>"
      unfolding MessageDelta delta_step by (auto split: if_splits)
    with True show ?thesis by (simp add: text_times_def)
  next
    case False
    with assms have "e1 = []"
      "s1 = s\<lparr>fullContent := fullContent s @ d, receivedDelta := True, seg_text := seg_text s @ d\<rparr>"
      unfolding MessageDelta delta_step by (auto split: if_splits)
    then show ?thesis by (simp add: text_times_def)
  qed
next
  case (Message c)
  show ?thesis
  proof (cases "\<not> receivedDelta s \<and> c \<noteq> []")
    case True
    with assms have "e1 = [Callback Text (seg_text s @ c) (Some (seg_id s))]"
      "s1 = s\<lparr>fullContent := fullContent s @ c, receivedDelta := True,
              seg_text := seg_text s @ c, seg_lastUpdate := now\<rparr>"
      unfolding Message by (simp_all add: Let_def)
    with True show ?thesis by (simp add: text_times_def)
  next
    case False
    with assms have "e1 = []" "s1 = s" unfolding Message by (auto split: if_splits)
    then show ?thesis by (simp add: text_times_def)
  qed
next
  case (ToolStart n)
  show ?thesis
  proof (cases "seg_text s \<noteq> []")
    case True
    with assms have "e1 = [Callback SegmentEnd (seg_text s) (Some (seg_id s)),
          Callback Tool (tool_prefix @ n) None]"
      "s1 = s\<lparr>seg_id := seg_id s + 1, seg_text := [], seg_lastUpdate := 0\<rparr>"
      unfolding ToolStart by simp_all
    then show ?thesis by (simp add: text_times_def)
  next
    case False
    with assms have "e1 = [Callback Tool (tool_prefix @ n) None]" "s1 = s"
      unfolding ToolStart by simp_all
    then show ?thesis by (simp add: text_times_def)
  qed
next
  case ToolComplete
  with assms have "e1 = []" "s1 = s" by simp_all
  then show ?thesis by (simp add: text_times_def)
next
  case (Usage a b c d)
  with assms have "e1 = []" "s1 = s" by simp_all
  then show ?thesis by (simp add: text_times_def)
next
  case (TitleChanged t)
  with assms have "e1 = []" "s1 = s" by simp_all
  then show ?thesis by (simp add: text_times_def)
next
  case (ReasoningDelta d)
  with assms have "e1 = [Callback Thinking d None]" "s1 = s" by simp_all
  then show ?thesis by (simp add: text_times_def)
next
  case OtherEvent
  with assms have "e1 = []" "s1 = s" by simp_all
  then show ?thesis by (simp add: text_times_def)
qed

lemma deliver_text_step:
  assumes "deliver thr now sg (m, s) = (e1, m1, s1)"
  shows "(text_times k (map (Pair now) e1) = []
           \<and> (receivedDelta s \<longrightarrow> receivedDelta s1)
           \<and> ((seg_id s1 = seg_id s \<and> seg_lastUpdate s1 = seg_lastUpdate s) \<or> seg_id s < seg_id s1))
       \<or> (text_times k (map (Pair now) e1) = (if k = seg_id s then [now] else [])
           \<and> seg_id s1 = seg_id s \<and> seg_lastUpdate s1 = now \<and> receivedDelta s1
           \<and> (receivedDelta s \<longrightarrow> thr < now - seg_lastUpdate s))"
proof (cases "is_terminal sg")
  case True
  from terminal_effects [OF True assms, of k] show ?thesis by simp
next
  case False
  then obtain e where sg: "sg = Event e" by (cases sg) simp_all
  show ?thesis
  proof (cases "subAll s")
    case True
    with assms sg have "handleEvent thr now e (m, s) = (e1, m1, s1)" by simp
    then show ?thesis by (rule event_text_step)
  next
    case False
    with assms sg have "e1 = []" "s1 = s" by simp_all
    then show ?thesis by (simp add: text_times_def)
  qed
qed


lemma no_text_below:
  assumes "run thr sigs (m1, s1) = (e2, m2, s2)" "k < seg_id s1"
  shows "text_times k e2 = []"
proof (rule ccontr)
  assume "text_times k e2 \<noteq> []"
  then obtain t where "t \<in> set (text_times k e2)" by (cases "text_times k e2") auto
  then obtain c where "(t, Callback Text c (Some k)) \<in> set e2" unfolding text_times_mem by blast
  with run_ids [OF assms(1)] have "seg_id s1 \<le> k" by blast
  with assms(2) show False by simp
qed

lemma later_text_after_clock:
  assumes "0 \<le> thr"
  shows "receivedDelta s \<Longrightarrow> run thr sigs (m, s) = (effs, m', s') \<Longrightarrow>
     \<forall>t \<in> set (text_times (seg_id s) effs). thr < t - seg_lastUpdate s"
proof (induction sigs arbitrary: m s effs m' s')
  case Nil
  then show ?case by (simp add: text_times_def)
next
  case (Cons x sigs)
  obtain now sg where x: "x = (now, sg)" by (cases x)
  obtain e1 m1 s1 where d: "deliver thr now sg (m, s) = (e1, m1, s1)"
    by (cases "deliver thr now sg (m, s)")
  obtain e2 m2 s2 where r: "run thr sigs (m1, s1) = (e2, m2, s2)"
    by (cases "run thr sigs (m1, s1)")
  from Cons.prems(2) x d r have eq: "effs = map (Pair now) e1 @ e2" by simp
  have tt: "text_times (seg_id s) effs
      = text_times (seg_id s) (map (Pair now) e1) @ text_times (seg_id s) e2"
    unfolding eq by (rule text_times_append)
  from deliver_text_step [OF d, of "seg_id s"] Cons.prems(1)
  consider
    (quiet) "text_times (seg_id s) (map (Pair now) e1) = []" "receivedDelta s1"
      "seg_id s1 = seg_id s" "seg_lastUpdate s1 = seg_lastUpdate s"
  | (next_seg) "text_times (seg_id s) (map (Pair now) e1) = []" "seg_id s < seg_id s1"
  | (emit) "text_times (seg_id s) (map (Pair now) e1) = [now]" "receivedDelta s1"
      "seg_id s1 = seg_id s" "seg_lastUpdate s1 = now" "thr < now - seg_lastUpdate s"
    by auto
  then show ?case
  proof cases
    case quiet
    from Cons.IH [OF quiet(2) r] quiet show ?thesis unfolding tt by simp
  next
    case next_seg
    from no_text_below [OF r next_seg(2)] next_seg(1) show ?thesis unfolding tt by simp
  next
    case emit
    from Cons.IH [OF emit(2) r] emit(3,4)
    have "\<forall>t \<in> set (text_times (seg_id s) e2). thr < t - now" by simp
    with emit(5) assms have "\<forall>t \<in> set (text_times (seg_id s) e2). thr < t - seg_lastUpdate s"
      by fastforce
    with emit(1,5) show ?thesis unfolding tt by simp
  qed
qed

lemma text_spacing:
  assumes "0 \<le> thr"
  shows "sorted_wrt (\<lambda>t1 t2. thr < t2 - t1) (text_times k (fst (run thr sigs (m, s))))"
proof (induction sigs arbitrary: m s)
  case Nil
  then show ?case by (simp add: text_times_def)
next
  case (Cons x sigs)
  obtain now sg where x: "x = (now, sg)" by (cases x)
  obtain e1 m1 s1 where d: "deliver thr now sg (m, s) = (e1, m1, s1)"
    by (cases "deliver thr now sg (m, s)")
  obtain e2 m2 s2 where r: "run thr sigs (m1, s1) = (e2, m2, s2)"
    by (cases "run thr sigs (m1, s1)")
  from x d r have eq: "fst (run thr (x # sigs) (m, s)) = map (Pair now) e1 @ e2" by simp
  have ih: "sorted_wrt (\<lambda>t1 t2. thr < t2 - t1) (text_times k e2)"
    using Cons.IH [of m1 s1] r by simp
  from deliver_text_step [OF d, of k]
  consider (none) "text_times k (map (Pair now) e1) = []"
    | (emit) "text_times k (map (Pair now) e1) = [now]" "k = seg_id s"
        "seg_id s1 = seg_id s" "seg_lastUpdate s1 = now" "receivedDelta s1"
    by (auto split: if_splits)
  then show ?case
  proof cases
    case none
    with ih show ?thesis unfolding eq text_times_append by simp
  next
    case emit
    from later_text_after_clock [OF assms emit(5) r] emit(2,3,4)
    have "\<forall>t \<in> set (text_times k e2). thr < t - now" by simp
    with ih emit(1) show ?thesis unfolding eq text_times_append by simp
  qed
qed

lemma deltas_run:
  "subAll s \<Longrightarrow> run thr (map (\<lambda>(t, d). (t, Event (MessageDelta d))) deltas) (m, s) = (effs, m', s') \<Longrightarrow>
     m' = m \<and> subAll s' \<and> seg_id s' = seg_id s
     \<and> seg_text s' = seg_text s @ concat (map snd deltas)
     \<and> fullContent s' = fullContent s @ concat (map snd deltas)
     \<and> (\<forall>x \<in> set effs. \<exists>c. snd x = Callback Text c (Some (seg_id s)))"
proof (induction deltas arbitrary: s effs m' s')
  case Nil
  then show ?case by simp
next
  case (Cons x deltas)
  obtain now d where x: "x = (now, d)" by (cases x)
  obtain e1 s1 where h: "handleEvent thr now (MessageDelta d) (m, s) = (e1, m, s1)"
    and s1: "subAll s1" "seg_id s1 = seg_id s" "seg_text s1 = seg_text s @ d"
      "fullContent s1 = fullContent s @ d"
    and e1: "\<forall>e \<in> set e1. \<exists>c. e = Callback Text c (Some (seg_id s))"
    using Cons.prems(1) unfolding delta_step by (cases "thr < now - seg_lastUpdate s \<and> 20 < length (seg_text s @ d)") auto
  obtain e2 m2 s2 where r: "run thr (map (\<lambda>(t, d). (t, Event (MessageDelta d))) deltas) (m, s1) = (e2, m2, s2)"
    by (cases "run thr (map (\<lambda>(t, d). (t, Event (MessageDelta d))) deltas) (m, s1)")
  from Cons.prems x h r have eq: "effs = map (Pair now) e1 @ e2" "m' = m2" "s' = s2" by simp_all
  from Cons.IH [OF s1(1) r] s1 e1 x show ?case unfolding eq by auto
qed

subsection \<open>Segments and tool starts\<close>

text \<open>
  Claim C3. Take any deltas, then a tool start, then anything else, while the listener
  of all events is subscribed. The deltas keep the segment id and only emit \<open>text\<close>
  updates with it. If the segment has text when the tool starts, the tool start emits
  one \<open>segment_end\<close> with that text and id (before the \<open>tool\<close> update), the id is
  incremented and the segment's text and throttle clock are reset, and no update
  afterwards carries the old id. If the segment has no text, only the \<open>tool\<close> update is
  emitted and the segment is unchanged.
\<close>

theorem tool_start_closes_segment:
  assumes "subAll s"
    and "run thr (map (\<lambda>(t, d). (t, Event (MessageDelta d))) deltas) (m, s) = (effs1, m1, s1)"
    and "deliver thr now (Event (ToolStart toolName)) (m1, s1) = (effs2, m2, s2)"
    and "run thr later (m2, s2) = (effs3, m3, s3)"
  shows "seg_id s1 = seg_id s \<and> seg_text s1 = seg_text s @ concat (map snd deltas)
       \<and> (\<forall>x \<in> set effs1. \<exists>c. snd x = Callback Text c (Some (seg_id s)))
       \<and> (seg_text s1 \<noteq> [] \<longrightarrow>
            effs2 = [Callback SegmentEnd (seg_text s1) (Some (seg_id s)),
                     Callback Tool (tool_prefix @ toolName) None]
            \<and> seg_id s2 = seg_id s + 1 \<and> seg_text s2 = [] \<and> seg_lastUpdate s2 = 0
            \<and> (\<forall>t ty c. (t, Callback ty c (Some (seg_id s))) \<notin> set effs3))
       \<and> (seg_text s1 = [] \<longrightarrow>
            effs2 = [Callback Tool (tool_prefix @ toolName) None] \<and> s2 = s1)"
proof -
  note d = deltas_run [OF assms(1,2)]
  from d have m1: "m1 = m" and sub: "subAll s1" and id1: "seg_id s1 = seg_id s"
    and tx: "seg_text s1 = seg_text s @ concat (map snd deltas)"
    and e1: "\<forall>x \<in> set effs1. \<exists>c. snd x = Callback Text c (Some (seg_id s))"
    by simp_all
  from assms(3) sub have h: "handleEvent thr now (ToolStart toolName) (m1, s1) = (effs2, m2, s2)"
    by simp
  have full: "seg_text s1 \<noteq> [] \<longrightarrow>
            effs2 = [Callback SegmentEnd (seg_text s1) (Some (seg_id s)),
                     Callback Tool (tool_prefix @ toolName) None]
            \<and> seg_id s2 = seg_id s + 1 \<and> seg_text s2 = [] \<and> seg_lastUpdate s2 = 0
            \<and> (\<forall>t ty c. (t, Callback ty c (Some (seg_id s))) \<notin> set effs3)"
  proof
    assume ne: "seg_text s1 \<noteq> []"
    with h id1 have a: "effs2 = [Callback SegmentEnd (seg_text s1) (Some (seg_id s)),
                     Callback Tool (tool_prefix @ toolName) None]"
      and b: "seg_id s2 = seg_id s + 1" "seg_text s2 = []" "seg_lastUpdate s2 = 0"
      by auto
    have "\<forall>t ty c. (t, Callback ty c (Some (seg_id s))) \<notin> set effs3"
    proof (intro allI notI)
      fix t ty c assume "(t, Callback ty c (Some (seg_id s))) \<in> set effs3"
      with run_ids [OF assms(4)] have "seg_id s2 \<le> seg_id s" by blast
      with b(1) show False by simp
    qed
    with a b show "effs2 = [Callback SegmentEnd (seg_text s1) (Some (seg_id s)),
                     Callback Tool (tool_prefix @ toolName) None]
            \<and> seg_id s2 = seg_id s + 1 \<and> seg_text s2 = [] \<and> seg_lastUpdate s2 = 0
            \<and> (\<forall>t ty c. (t, Callback ty c (Some (seg_id s))) \<notin> set effs3)"
      by simp
  qed
  have empty: "seg_text s1 = [] \<longrightarrow>
            effs2 = [Callback Tool (tool_prefix @ toolName) None] \<and> s2 = s1"
    using h by auto
  from id1 tx e1 full empty show ?thesis by (intro conjI)
qed

lemma example_deltas_run:
  "run 500 (map (\<lambda>(t, d). (t, Event (MessageDelta d))) example_deltas) (new_manager, initial_send)
   = ([(1200, Callback Text ''Hello, this is a reply of thirty characters..'' (Some 0))],
      new_manager,
      initial_send\<lparr>fullContent := ''Hello, this is a reply of thirty characters..'',
                   receivedDelta := True,
                   seg_text := ''Hello, this is a reply of thirty characters..'',
                   seg_lastUpdate := 1200\<rparr>)"
  by (simp add: example_deltas_def initial_send_def Let_def)


lemma example_deltas_run':
  "run 500 (map (\<lambda>(t, d). (t, Event (MessageDelta d))) example_deltas) (new_manager, initial_send)
   = ([(1200, Callback Text example_text (Some 0))], new_manager,
      initial_send\<lparr>fullContent := example_text, receivedDelta := True,
                   seg_text := example_text, seg_lastUpdate := 1200\<rparr>)"
  unfolding example_text_def by (rule example_deltas_run)

theorem tool_start_closes_segment_witness:
  "subAll initial_send
   \<and> run 500 (map (\<lambda>(t, d). (t, Event (MessageDelta d))) example_deltas) (new_manager, initial_send)
     = ([(1200, Callback Text example_text (Some 0))], new_manager,
        initial_send\<lparr>fullContent := example_text, receivedDelta := True,
                     seg_text := example_text, seg_lastUpdate := 1200\<rparr>)
   \<and> example_text \<noteq> []
   \<and> deliver 500 1300 (Event (ToolStart ''bash''))
        (new_manager, initial_send\<lparr>fullContent := example_text, receivedDelta := True,
                     seg_text := example_text, seg_lastUpdate := 1200\<rparr>)
     = ([Callback SegmentEnd example_text (Some 0), Callback Tool (tool_prefix @ ''bash'') None],
        new_manager\<lparr>currentTool := Some ''bash''\<rparr>,
        initial_send\<lparr>fullContent := example_text, receivedDelta := True,
                     seg_text := [], seg_lastUpdate := 0, seg_id := 1\<rparr>)
   \<and> run 500 [(1400, Event (MessageDelta ''and twenty-five more here''))]
        (new_manager\<lparr>currentTool := Some ''bash''\<rparr>,
         initial_send\<lparr>fullContent := example_text, receivedDelta := True,
                     seg_text := [], seg_lastUpdate := 0, seg_id := 1\<rparr>)
     = ([(1400, Callback Text ''and twenty-five more here'' (Some 1))],
        new_manager\<lparr>currentTool := Some ''bash''\<rparr>,
        initial_send\<lparr>fullContent := example_text @ ''and twenty-five more here'',
                     receivedDelta := True, seg_text := ''and twenty-five more here'',
                     seg_lastUpdate := 1400, seg_id := 1\<rparr>)
   \<and> deliver 500 1300 (Event (ToolStart ''bash'')) (new_manager, initial_send)
     = ([Callback Tool (tool_prefix @ ''bash'') None], new_manager\<lparr>currentTool := Some ''bash''\<rparr>,
        initial_send)"
proof -
  have h1: "subAll initial_send" by (simp add: initial_send_def)
  note h2 = example_deltas_run'
  have ne: "example_text \<noteq> []" by (simp add: example_text_def)
  have h3: "deliver 500 1300 (Event (ToolStart ''bash''))
        (new_manager, initial_send\<lparr>fullContent := example_text, receivedDelta := True,
                     seg_text := example_text, seg_lastUpdate := 1200\<rparr>)
     = ([Callback SegmentEnd example_text (Some 0), Callback Tool (tool_prefix @ ''bash'') None],
        new_manager\<lparr>currentTool := Some ''bash''\<rparr>,
        initial_send\<lparr>fullContent := example_text, receivedDelta := True,
                     seg_text := [], seg_lastUpdate := 0, seg_id := 1\<rparr>)"
    using ne by (simp add: initial_send_def)
  have h4: "run 500 [(1400, Event (MessageDelta ''and twenty-five more here''))]
        (new_manager\<lparr>currentTool := Some ''bash''\<rparr>,
         initial_send\<lparr>fullContent := example_text, receivedDelta := True,
                     seg_text := [], seg_lastUpdate := 0, seg_id := 1\<rparr>)
     = ([(1400, Callback Text ''and twenty-five more here'' (Some 1))],
        new_manager\<lparr>currentTool := Some ''bash''\<rparr>,
        initial_send\<lparr>fullContent := example_text @ ''and twenty-five more here'',
                     receivedDelta := True, seg_text := ''and twenty-five more here'',
                     seg_lastUpdate := 1400, seg_id := 1\<rparr>)"
    by (simp add: initial_send_def Let_def)
  have h5: "run 500 (map (\<lambda>(t, d). (t, Event (MessageDelta d))) []) (new_manager, initial_send)
     = ([], new_manager, initial_send)" by simp
  obtain e m' s' where h6: "deliver 500 1300 (Event (ToolStart ''bash'')) (new_manager, initial_send)
     = (e, m', s')" by (cases "deliver 500 1300 (Event (ToolStart ''bash'')) (new_manager, initial_send)")
  have h7: "run 500 [] (m', s') = ([], m', s')" by simp
  note t1 = tool_start_closes_segment [OF h1 h2 h3 h4]
  note t2 = tool_start_closes_segment [OF h1 h5 h6 h7]
  have "seg_text initial_send = []" by (simp add: initial_send_def)
  with t2 have e: "e = [Callback Tool (tool_prefix @ ''bash'') None]" and s': "s' = initial_send"
    by simp_all
  from h6 h1 have "m' = new_manager\<lparr>currentTool := Some ''bash''\<rparr>" by (auto split: if_splits)
  with e s' h6 have h8: "deliver 500 1300 (Event (ToolStart ''bash'')) (new_manager, initial_send)
     = ([Callback Tool (tool_prefix @ ''bash'') None], new_manager\<lparr>currentTool := Some ''bash''\<rparr>,
        initial_send)" by simp
  from h1 h2 ne h3 h4 h8 show ?thesis by (intro conjI)
qed



subsection \<open>Throttling of text updates\<close>

text \<open>
  Claim C4. A delta emits a \<open>text\<close> update exactly when more than the throttle interval
  has passed since the segment's last emission and the segment's text is longer than 20
  characters, and then sets the segment's clock. So in any run the \<open>text\<close> updates of
  one segment id are more than the throttle interval apart. The finalizing emissions do
  fire, whatever the time and the throttle interval: a tool start on a segment with text
  emits the \<open>segment_end\<close> for it, and so does the idle listener of a send that is not
  yet settled, as its first effect.
\<close>

theorem text_updates_throttled:
  assumes "0 \<le> thr"
  shows "handleEvent thr now (MessageDelta d) (m, s) =
           (if thr < now - seg_lastUpdate s \<and> 20 < length (seg_text s @ d)
            then ([Callback Text (seg_text s @ d) (Some (seg_id s))], m,
                  s\<lparr>fullContent := fullContent s @ d, receivedDelta := True,
                    seg_text := seg_text s @ d, seg_lastUpdate := now\<rparr>)
            else ([], m, s\<lparr>fullContent := fullContent s @ d, receivedDelta := True,
                           seg_text := seg_text s @ d\<rparr>))
       \<and> sorted_wrt (\<lambda>t1 t2. thr < t2 - t1) (text_times k (fst (run thr sigs (m, s))))
       \<and> (seg_text s \<noteq> [] \<longrightarrow>
            handleEvent thr now (ToolStart toolName) (m, s)
              = ([Callback SegmentEnd (seg_text s) (Some (seg_id s)),
                  Callback Tool (tool_prefix @ toolName) None],
                 m\<lparr>currentTool := Some toolName\<rparr>,
                 s\<lparr>seg_id := seg_id s + 1, seg_text := [], seg_lastUpdate := 0\<rparr>))
       \<and> (seg_text s \<noteq> [] \<and> \<not> settled s \<longrightarrow>
            take 1 (fst (on_idle flushed finished now (m, s)))
              = [Callback SegmentEnd (seg_text s) (Some (seg_id s))])"
proof (intro conjI impI)
  show "handleEvent thr now (MessageDelta d) (m, s) =
           (if thr < now - seg_lastUpdate s \<and> 20 < length (seg_text s @ d)
            then ([Callback Text (seg_text s @ d) (Some (seg_id s))], m,
                  s\<lparr>fullContent := fullContent s @ d, receivedDelta := True,
                    seg_text := seg_text s @ d, seg_lastUpdate := now\<rparr>)
            else ([], m, s\<lparr>fullContent := fullContent s @ d, receivedDelta := True,
                           seg_text := seg_text s @ d\<rparr>))"
    by (rule delta_step)
  show "sorted_wrt (\<lambda>t1 t2. thr < t2 - t1) (text_times k (fst (run thr sigs (m, s))))"
    by (rule text_spacing [OF assms])
next
  assume "seg_text s \<noteq> []"
  then show "handleEvent thr now (ToolStart toolName) (m, s)
              = ([Callback SegmentEnd (seg_text s) (Some (seg_id s)),
                  Callback Tool (tool_prefix @ toolName) None],
                 m\<lparr>currentTool := Some toolName\<rparr>,
                 s\<lparr>seg_id := seg_id s + 1, seg_text := [], seg_lastUpdate := 0\<rparr>)"
    by simp
next
  assume "seg_text s \<noteq> [] \<and> \<not> settled s"
  then show "take 1 (fst (on_idle flushed finished now (m, s)))
              = [Callback SegmentEnd (seg_text s) (Some (seg_id s))]"
    by (simp add: on_idle_unsettled del: handler_defs)
qed

lemma example_burst_times:
  "text_times 0 (fst (run 500 example_burst (new_manager, initial_send))) = [1000, 1600]"
  by (simp add: example_burst_def initial_send_def Let_def text_times_def)

lemma example_emitted_run:
  "run 500 [(1000, Event (MessageDelta ''a first delta of thirty chars.''))]
     (new_manager, initial_send)
   = ([(1000, Callback Text ''a first delta of thirty chars.'' (Some 0))], new_manager,
      example_emitted)"
  by (simp add: example_emitted_def initial_send_def Let_def)

theorem text_updates_throttled_witness:
  "(0::int) \<le> 500
   \<and> text_times 0 (fst (run 500 example_burst (new_manager, initial_send))) = [1000, 1600]
   \<and> sorted_wrt (\<lambda>t1 t2. (500::int) < t2 - t1) [1000, 1600]
   \<and> seg_text example_emitted \<noteq> [] \<and> \<not> settled example_emitted
   \<and> 1001 - seg_lastUpdate example_emitted \<le> 500
   \<and> handleEvent 500 1001 (ToolStart ''bash'') (new_manager, example_emitted)
     = ([Callback SegmentEnd ''a first delta of thirty chars.'' (Some 0),
         Callback Tool (tool_prefix @ ''bash'') None],
        new_manager\<lparr>currentTool := Some ''bash''\<rparr>,
        example_emitted\<lparr>seg_id := 1, seg_text := [], seg_lastUpdate := 0\<rparr>)
   \<and> take 1 (fst (on_idle Fulfils Fulfils 1001 (new_manager, example_emitted)))
     = [Callback SegmentEnd ''a first delta of thirty chars.'' (Some 0)]
   \<and> fst (run 500 [(1000, Event (MessageDelta ''a first delta of thirty chars.'')),
                    (1001, Event (ToolStart ''bash''))] (new_manager, initial_send))
     = [(1000, Callback Text ''a first delta of thirty chars.'' (Some 0)),
        (1001, Callback SegmentEnd ''a first delta of thirty chars.'' (Some 0)),
        (1001, Callback Tool (tool_prefix @ ''bash'') None)]
   \<and> fst (run 500 [(1000, Event (MessageDelta ''a first delta of thirty chars.'')),
                    (1001, SessionIdle Fulfils Fulfils)] (new_manager, initial_send))
     = [(1000, Callback Text ''a first delta of thirty chars.'' (Some 0)),
        (1001, Callback SegmentEnd ''a first delta of thirty chars.'' (Some 0)),
        (1001, Callback Done [] None),
        (1001, Resolve ''a first delta of thirty chars.'')]"
proof -
  have h: "(0::int) \<le> 500" by simp
  have r1: "fst (run 500 [(1000, Event (MessageDelta ''a first delta of thirty chars.'')),
                    (1001, Event (ToolStart ''bash''))] (new_manager, initial_send))
     = [(1000, Callback Text ''a first delta of thirty chars.'' (Some 0)),
        (1001, Callback SegmentEnd ''a first delta of thirty chars.'' (Some 0)),
        (1001, Callback Tool (tool_prefix @ ''bash'') None)]"
    by (simp add: initial_send_def Let_def)
  have r2: "fst (run 500 [(1000, Event (MessageDelta ''a first delta of thirty chars.'')),
                    (1001, SessionIdle Fulfils Fulfils)] (new_manager, initial_send))
     = [(1000, Callback Text ''a first delta of thirty chars.'' (Some 0)),
        (1001, Callback SegmentEnd ''a first delta of thirty chars.'' (Some 0)),
        (1001, Callback Done [] None),
        (1001, Resolve ''a first delta of thirty chars.'')]"
    by (simp add: initial_send_def Let_def settle_def unsubscribe_def)
  note t = text_updates_throttled [OF h, of 1001 "[]" new_manager example_emitted 0 example_burst
      "''bash''" Fulfils Fulfils]
  have i: "seg_text example_emitted = ''a first delta of thirty chars.''"
    "seg_id example_emitted = 0" "seg_lastUpdate example_emitted = 1000"
    "\<not> settled example_emitted"
    by (simp_all add: example_emitted_def initial_send_def)
  have ne: "seg_text example_emitted \<noteq> []" unfolding i by simp
  have cl: "1001 - seg_lastUpdate example_emitted \<le> 500" unfolding i by simp
  from text_updates_throttled [OF h, of 0 "[]" new_manager initial_send 0 example_burst,
      THEN conjunct2, THEN conjunct1]
  have "sorted_wrt (\<lambda>t1 t2. (500::int) < t2 - t1)
          (text_times 0 (fst (run 500 example_burst (new_manager, initial_send))))" .
  then have sp: "sorted_wrt (\<lambda>t1 t2. (500::int) < t2 - t1) [1000, 1600]"
    unfolding example_burst_times .
  from t [THEN conjunct2, THEN conjunct2, THEN conjunct1, THEN mp, OF ne]
  have ts: "handleEvent 500 1001 (ToolStart ''bash'') (new_manager, example_emitted)
     = ([Callback SegmentEnd ''a first delta of thirty chars.'' (Some 0),
         Callback Tool (tool_prefix @ ''bash'') None],
        new_manager\<lparr>currentTool := Some ''bash''\<rparr>,
        example_emitted\<lparr>seg_id := 1, seg_text := [], seg_lastUpdate := 0\<rparr>)"
    unfolding i by simp
  from ne i(4) have ne': "seg_text example_emitted \<noteq> [] \<and> \<not> settled example_emitted" ..
  from t [THEN conjunct2, THEN conjunct2, THEN conjunct2, THEN mp, OF ne']
  have idl: "take 1 (fst (on_idle Fulfils Fulfils 1001 (new_manager, example_emitted)))
     = [Callback SegmentEnd ''a first delta of thirty chars.'' (Some 0)]"
    unfolding i .
  from h example_burst_times sp ne i(4) cl ts idl r1 r2 show ?thesis by (intro conjI)
qed

subsection \<open>The complete-message fallback\<close>

text \<open>
  Claim C7 as stated fails: a complete message of two characters, arriving before the
  throttle interval has passed, is emitted as a \<open>text\<close> update, while the same content
  as a delta is not.
\<close>

theorem complete_message_unthrottled_counterexample:
  "handleEvent 2000 1000 (Message ''hi'') (new_manager, initial_send)
     = ([Callback Text ''hi'' (Some 0)], new_manager,
        initial_send\<lparr>fullContent := ''hi'', receivedDelta := True, seg_text := ''hi'',
                     seg_lastUpdate := 1000\<rparr>)
   \<and> handleEvent 2000 1000 (MessageDelta ''hi'') (new_manager, initial_send)
     = ([], new_manager,
        initial_send\<lparr>fullContent := ''hi'', receivedDelta := True, seg_text := ''hi''\<rparr>)
   \<and> \<not> (2000::int) < 1000 - seg_lastUpdate initial_send
   \<and> \<not> 20 < length (seg_text initial_send @ ''hi'')"
  by (simp add: initial_send_def Let_def)


lemma quiet_events_run:
  "subAll s \<Longrightarrow> \<not> receivedDelta s \<Longrightarrow>
   \<forall>x \<in> set pre. \<not> is_terminal (snd x) \<and> \<not> carries_text (snd x) \<Longrightarrow>
   run thr pre (m, s) = (e1, m1, s1) \<Longrightarrow>
     subAll s1 \<and> \<not> receivedDelta s1 \<and> fullContent s1 = fullContent s"
proof (induction pre arbitrary: m s e1 m1 s1)
  case Nil
  then show ?case by simp
next
  case (Cons x pre)
  obtain now sg where x: "x = (now, sg)" by (cases x)
  with Cons.prems(3) have q: "\<not> is_terminal sg" "\<not> carries_text sg" by simp_all
  then obtain e where sg: "sg = Event e" by (cases sg) simp_all
  obtain ea ma sa where h: "handleEvent thr now e (m, s) = (ea, ma, sa)"
    by (cases "handleEvent thr now e (m, s)")
  from q(2) sg h Cons.prems(1,2)
  have sa: "subAll sa" "\<not> receivedDelta sa" "fullContent sa = fullContent s"
    by (cases e; auto split: if_splits)+
  obtain eb mb sb where r: "run thr pre (ma, sa) = (eb, mb, sb)"
    by (cases "run thr pre (ma, sa)")
  from Cons.prems(1,4) x sg h r have eq: "s1 = sb" by simp
  from Cons.prems(3) have "\<forall>x \<in> set pre. \<not> is_terminal (snd x) \<and> \<not> carries_text (snd x)"
    by simp
  from Cons.IH [OF sa(1,2) this r] sa(3) show ?case unfolding eq by simp
qed

text \<open>
  Claim C7, amended. Take a send in which no delta and no complete message has been
  seen so far, and then its single complete message. If the content is not empty, it is
  appended to the full response and to the segment as a delta's is, a \<open>text\<close> update
  with the segment's text is emitted at once, whatever the throttle interval and the
  length, and the segment's clock is set. If the content is empty, the complete message
  is ignored; so is any complete message that comes after a delta or after a complete
  message with content.
\<close>

theorem complete_message_fallback:
  assumes "subAll s" and "\<not> receivedDelta s"
    and "\<forall>x \<in> set pre. \<not> is_terminal (snd x) \<and> \<not> carries_text (snd x)"
    and "run thr pre (m, s) = (e1, m1, s1)"
  shows "(content \<noteq> [] \<longrightarrow>
           deliver thr now (Event (Message content)) (m1, s1)
             = ([Callback Text (seg_text s1 @ content) (Some (seg_id s1))], m1,
                s1\<lparr>fullContent := fullContent s1 @ content, receivedDelta := True,
                  seg_text := seg_text s1 @ content, seg_lastUpdate := now\<rparr>)
           \<and> fullContent (snd (snd (deliver thr now (Event (Message content)) (m1, s1))))
               = fullContent (snd (snd (deliver thr now (Event (MessageDelta content)) (m1, s1))))
           \<and> seg_text (snd (snd (deliver thr now (Event (Message content)) (m1, s1))))
               = seg_text (snd (snd (deliver thr now (Event (MessageDelta content)) (m1, s1))))
           \<and> receivedDelta (snd (snd (deliver thr now (Event (Message content)) (m1, s1))))
               = receivedDelta (snd (snd (deliver thr now (Event (MessageDelta content)) (m1, s1)))))
       \<and> (content = [] \<longrightarrow> deliver thr now (Event (Message content)) (m1, s1) = ([], m1, s1))
       \<and> (receivedDelta s' \<longrightarrow>
            handleEvent thr now (Message content) (m', s') = ([], m', s'))"
proof -
  from quiet_events_run [OF assms] have q: "subAll s1" "\<not> receivedDelta s1" by simp_all
  then show ?thesis by (auto simp: Let_def)
qed

theorem complete_message_fallback_witness:
  "subAll initial_send \<and> \<not> receivedDelta initial_send
   \<and> list_all (\<lambda>x. \<not> is_terminal (snd x) \<and> \<not> carries_text (snd x))
        [(900, Event (ReasoningDelta ''thinking'')), (950, Event (ToolStart ''bash''))]
   \<and> run 2000 [(900, Event (ReasoningDelta ''thinking'')), (950, Event (ToolStart ''bash''))]
        (new_manager, initial_send)
     = ([(900, Callback Thinking ''thinking'' None),
         (950, Callback Tool (tool_prefix @ ''bash'') None)],
        new_manager\<lparr>currentTool := Some ''bash''\<rparr>, initial_send)
   \<and> ''hi'' \<noteq> []
   \<and> deliver 2000 1000 (Event (Message ''hi''))
        (new_manager\<lparr>currentTool := Some ''bash''\<rparr>, initial_send)
     = ([Callback Text ''hi'' (Some 0)], new_manager\<lparr>currentTool := Some ''bash''\<rparr>,
        initial_send\<lparr>fullContent := ''hi'', receivedDelta := True, seg_text := ''hi'',
                     seg_lastUpdate := 1000\<rparr>)
   \<and> receivedDelta (initial_send\<lparr>fullContent := ''hi'', receivedDelta := True,
                     seg_text := ''hi'', seg_lastUpdate := 1000\<rparr>)
   \<and> handleEvent 2000 1500 (Message ''again'')
        (new_manager, initial_send\<lparr>fullContent := ''hi'', receivedDelta := True,
                     seg_text := ''hi'', seg_lastUpdate := 1000\<rparr>)
     = ([], new_manager, initial_send\<lparr>fullContent := ''hi'', receivedDelta := True,
                     seg_text := ''hi'', seg_lastUpdate := 1000\<rparr>)"
proof -
  have h1: "subAll initial_send" and h2: "\<not> receivedDelta initial_send"
    by (simp_all add: initial_send_def)
  have h3: "\<forall>x \<in> set [(900, Event (ReasoningDelta ''thinking'')), (950, Event (ToolStart ''bash''))].
      \<not> is_terminal (snd x) \<and> \<not> carries_text (snd x)" by simp
  then have h3': "list_all (\<lambda>x. \<not> is_terminal (snd x) \<and> \<not> carries_text (snd x))
        [(900, Event (ReasoningDelta ''thinking'')), (950, Event (ToolStart ''bash''))]"
    unfolding list_all_iff .
  have h4: "run 2000 [(900, Event (ReasoningDelta ''thinking'')), (950, Event (ToolStart ''bash''))]
        (new_manager, initial_send)
     = ([(900, Callback Thinking ''thinking'' None),
         (950, Callback Tool (tool_prefix @ ''bash'') None)],
        new_manager\<lparr>currentTool := Some ''bash''\<rparr>, initial_send)"
    by (simp add: initial_send_def)
  have i: "seg_text initial_send = []" "seg_id initial_send = 0" "fullContent initial_send = []"
    by (simp_all add: initial_send_def)
  have ne: "''hi'' \<noteq> []" by simp
  note t = complete_message_fallback [OF h1 h2 h3 h4, of "''hi''" 1000]
  from t [THEN conjunct1, THEN mp, OF ne, THEN conjunct1]
  have a: "deliver 2000 1000 (Event (Message ''hi''))
        (new_manager\<lparr>currentTool := Some ''bash''\<rparr>, initial_send)
     = ([Callback Text ''hi'' (Some 0)], new_manager\<lparr>currentTool := Some ''bash''\<rparr>,
        initial_send\<lparr>fullContent := ''hi'', receivedDelta := True, seg_text := ''hi'',
                     seg_lastUpdate := 1000\<rparr>)"
    unfolding i by simp
  have c: "receivedDelta (initial_send\<lparr>fullContent := ''hi'', receivedDelta := True,
                     seg_text := ''hi'', seg_lastUpdate := 1000\<rparr>)" by simp
  note b = complete_message_fallback [OF h1 h2 h3 h4, of "''again''" 1500
      "initial_send\<lparr>fullContent := ''hi'', receivedDelta := True,
                     seg_text := ''hi'', seg_lastUpdate := 1000\<rparr>" new_manager,
      THEN conjunct2, THEN conjunct2, THEN mp, OF c]
  from h1 h2 h3' h4 ne a c b show ?thesis by (intro conjI)
qed

subsection \<open>Settlement of a send\<close>

lemma run_append:
  "run thr (xs @ ys) w =
     (case run thr xs w of (e1, w1) \<Rightarrow> (case run thr ys w1 of (e2, w2) \<Rightarrow> (e1 @ e2, w2)))"
  by (induction xs arbitrary: w) (auto split: prod.splits)

lemma handleEvent_latch:
  assumes "handleEvent thr now e (m, s) = (effs, m', s')"
  shows "settled s' = settled s \<and> timerPending s' = timerPending s \<and> subAll s' = subAll s
       \<and> subIdle s' = subIdle s \<and> subError s' = subError s"
  using assms by (cases e) (auto simp: Let_def split: if_splits)

lemma event_keeps_live:
  assumes "live s" "deliver thr now (Event e) (m, s) = (effs, m', s')"
  shows "live s' \<and> filter is_settlement effs = []"
proof -
  from assms have h: "handleEvent thr now e (m, s) = (effs, m', s')" by (simp add: live_def)
  from handleEvent_latch [OF h] assms(1) have "live s'" by (simp add: live_def)
  moreover from handleEvent_ids [OF h] have "filter is_settlement effs = []"
    by (simp add: filter_empty_conv)
  ultimately show ?thesis by simp
qed

lemma events_keep_live:
  "live s \<Longrightarrow> \<forall>x \<in> set pre. \<not> is_terminal (snd x) \<Longrightarrow> run thr pre (m, s) = (e1, m1, s1) \<Longrightarrow>
     live s1 \<and> filter (\<lambda>x. is_settlement (snd x)) e1 = []"
proof (induction pre arbitrary: m s e1 m1 s1)
  case Nil
  then show ?case by simp
next
  case (Cons x pre)
  obtain now sg where x: "x = (now, sg)" by (cases x)
  with Cons.prems(2) obtain e where sg: "sg = Event e" by (cases sg) auto
  obtain ea ma sa where d: "deliver thr now (Event e) (m, s) = (ea, ma, sa)"
    by (cases "deliver thr now (Event e) (m, s)")
  obtain eb mb sb where r: "run thr pre (ma, sa) = (eb, mb, sb)"
    by (cases "run thr pre (ma, sa)")
  from Cons.prems(3) x sg d r have eq: "e1 = map (Pair now) ea @ eb" "m1 = mb" "s1 = sb" by simp_all
  from event_keeps_live [OF Cons.prems(1) d] have la: "live sa" and fa: "filter is_settlement ea = []"
    by simp_all
  from Cons.prems(2) have "\<forall>x \<in> set pre. \<not> is_terminal (snd x)" by simp
  from Cons.IH [OF la this r] have "live sb" "filter (\<lambda>x. is_settlement (snd x)) eb = []" by simp_all
  moreover from fa have "filter (\<lambda>x. is_settlement (snd x)) (map (Pair now) ea) = []"
    by (simp add: filter_empty_conv)
  ultimately show ?case unfolding eq by simp
qed

lemma terminal_on_live:
  assumes "live s" "is_terminal sg" "deliver thr now sg (m, s) = (e2, m2, s2)"
  shows "dead s2
       \<and> filter is_settlement e2 = (case settlement_of sg s of None \<Rightarrow> [] | Some x \<Rightarrow> [x])"
proof -
  from assms(1) have u: "\<not> settled s" and f: "timerPending s" "subIdle s" "subError s"
    by (simp_all add: live_def)
  show ?thesis
  proof (cases sg)
    case (Event e)
    with assms(2) show ?thesis by simp
  next
    case (SessionIdle flushed finished)
    with assms(3) f u show ?thesis
      by (cases flushed; cases finished)
         (auto simp: on_idle_unsettled dead_def idle_returns_def simp del: handler_defs)
  next
    case (SessionError msg)
    with assms(3) f u show ?thesis
      by (auto simp: on_error_unsettled dead_def simp del: handler_defs)
  next
    case TimeoutFired
    with assms(3) f u show ?thesis
      by (auto simp: on_timeout_unsettled dead_def simp del: handler_defs)
  next
    case (SendRejected err)
    with assms(3) f u show ?thesis
      by (auto simp: on_send_failed_unsettled dead_def simp del: handler_defs)
  qed
qed

lemma deliver_dead: "dead s \<Longrightarrow> deliver thr now sg (m, s) = ([], m, s)"
  by (cases sg) (simp_all add: dead_def handlers_settled del: handler_defs)

lemma run_dead: "dead s \<Longrightarrow> run thr sigs (m, s) = ([], m, s)"
proof (induction sigs)
  case Nil
  then show ?case by simp
next
  case (Cons x sigs)
  obtain now sg where x: "x = (now, sg)" by (cases x)
  from Cons show ?case unfolding x by (simp add: deliver_dead)
qed

text \<open>
  The latch. Take a pending send, any events, then the first terminal signal (the idle
  event, the error event, the timeout or the failed submission), then any further
  signals. Up to the terminal signal nothing is resolved or rejected. The terminal
  signal's handler closes the latch and makes the one call of \<open>resolve\<close> or \<open>reject\<close>
  that belongs to the signal, unless it is the idle listener and an awaited call of the
  status callback is rejected: then it makes none. Whatever arrives later changes
  nothing and emits nothing, and each of the four handlers, called after it, returns
  without an effect.
\<close>

lemma first_terminal_signal_decides:
  assumes "live s"
    and "\<forall>x \<in> set pre. \<not> is_terminal (snd x)"
    and "is_terminal sg"
    and "run thr pre (m, s) = (e1, m1, s1)"
    and "deliver thr t sg (m1, s1) = (e2, m2, s2)"
  shows "run thr (pre @ (t, sg) # post) (m, s) = (e1 @ map (Pair t) e2, m2, s2)"
    and "filter (\<lambda>x. is_settlement (snd x)) e1 = []"
    and "filter is_settlement e2 = (case settlement_of sg s1 of None \<Rightarrow> [] | Some x \<Rightarrow> [x])"
    and "filter (\<lambda>x. is_settlement (snd x)) (fst (run thr (pre @ (t, sg) # post) (m, s)))
           = (case settlement_of sg s1 of None \<Rightarrow> [] | Some x \<Rightarrow> [(t, x)])"
    and "settled s2"
    and "deliver thr now' sg' (m2, s2) = ([], m2, s2)"
    and "on_idle flushed finished now' (m2, s2) = ([], m2, s2)"
    and "on_error now' msg (m2, s2) = ([], m2, s2)"
    and "on_timeout (m2, s2) = ([], m2, s2)"
    and "on_send_failed msg (m2, s2) = ([], m2, s2)"
proof -
  note r1 = assms(4) and d = assms(5)
  from events_keep_live [OF assms(1,2) r1]
  have l1: "live s1" and f1: "filter (\<lambda>x. is_settlement (snd x)) e1 = []" by simp_all
  from terminal_on_live [OF l1 assms(3) d]
  have d2: "dead s2"
    and f2: "filter is_settlement e2 = (case settlement_of sg s1 of None \<Rightarrow> [] | Some x \<Rightarrow> [x])"
    by simp_all
  from run_dead [OF d2] have post: "run thr post (m2, s2) = ([], m2, s2)" .
  show whole: "run thr (pre @ (t, sg) # post) (m, s) = (e1 @ map (Pair t) e2, m2, s2)"
    by (simp add: run_append r1 d post)
  show "filter (\<lambda>x. is_settlement (snd x)) e1 = []" by (rule f1)
  show "filter is_settlement e2 = (case settlement_of sg s1 of None \<Rightarrow> [] | Some x \<Rightarrow> [x])"
    by (rule f2)
  have "filter (\<lambda>x. is_settlement (snd x)) (map (Pair t) e2) = map (Pair t) (filter is_settlement e2)"
    by (simp add: filter_map comp_def)
  with f1 f2 show "filter (\<lambda>x. is_settlement (snd x)) (fst (run thr (pre @ (t, sg) # post) (m, s)))
           = (case settlement_of sg s1 of None \<Rightarrow> [] | Some x \<Rightarrow> [(t, x)])"
    unfolding whole by (simp split: option.splits)
  from d2 show st: "settled s2" by (simp add: dead_def)
  show "deliver thr now' sg' (m2, s2) = ([], m2, s2)" by (rule deliver_dead [OF d2])
  from handlers_settled [OF st]
  show "on_idle flushed finished now' (m2, s2) = ([], m2, s2)"
    "on_error now' msg (m2, s2) = ([], m2, s2)"
    "on_timeout (m2, s2) = ([], m2, s2)"
    "on_send_failed msg (m2, s2) = ([], m2, s2)"
    by simp_all
qed

lemma example_send_run:
  "run 500 example_send (new_manager, initial_send)
   = ([(1200, Callback Text example_text (Some 0))], new_manager,
      initial_send\<lparr>fullContent := example_text, receivedDelta := True,
                   seg_text := example_text, seg_lastUpdate := 1200\<rparr>)"
  unfolding example_send_def by (rule example_deltas_run')

lemma example_idle:
  "deliver 500 2000 (SessionIdle Fulfils Fulfils)
     (new_manager, initial_send\<lparr>fullContent := example_text, receivedDelta := True,
                   seg_text := example_text, seg_lastUpdate := 1200\<rparr>)
   = ([Callback SegmentEnd example_text (Some 0), Callback Done [] None, Resolve example_text],
      new_manager\<lparr>lastActivity := Some 2000\<rparr>,
      initial_send\<lparr>fullContent := example_text, receivedDelta := True,
                   seg_text := example_text, seg_lastUpdate := 1200, settled := True,
                   timerPending := False, subAll := False, subIdle := False, subError := False\<rparr>)"
proof -
  have ne: "example_text \<noteq> []" by (simp add: example_text_def)
  then show ?thesis by (simp add: initial_send_def new_manager_def settle_def unsubscribe_def)
qed

lemma example_settles_once:
  "run 500 (example_send @ (2000, SessionIdle Fulfils Fulfils)
              # [(2001, SessionError ''late''), (300000, TimeoutFired)])
        (new_manager, initial_send)
     = ([(1200, Callback Text example_text (Some 0)),
         (2000, Callback SegmentEnd example_text (Some 0)),
         (2000, Callback Done [] None),
         (2000, Resolve example_text)],
        new_manager\<lparr>lastActivity := Some 2000\<rparr>,
        initial_send\<lparr>fullContent := example_text, receivedDelta := True,
                   seg_text := example_text, seg_lastUpdate := 1200, settled := True,
                   timerPending := False, subAll := False, subIdle := False, subError := False\<rparr>)"
proof -
  have h1: "live initial_send" by (simp add: live_def initial_send_def)
  have h2: "\<forall>x \<in> set example_send. \<not> is_terminal (snd x)"
    by (simp add: example_send_def example_deltas_def)
  have h3: "is_terminal (SessionIdle Fulfils Fulfils)" by simp
  from first_terminal_signal_decides(1) [OF h1 h2 h3 example_send_run example_idle,
      of "[(2001, SessionError ''late''), (300000, TimeoutFired)]"]
  show ?thesis by simp
qed

text \<open>
  Claim C2 fails on the code. The idle listener closes the latch, clears the timer and
  removes the listeners, and only then awaits the status callback, once for
  \<open>segment_end\<close> (when the segment has text) and once for \<open>done\<close>, outside any
  \<open>try\<close>; the call of \<open>resolve\<close> comes after both. Take a pending send, any events, then
  the idle event as the first terminal signal, with one of these awaited calls rejected.
  Then the run holds no call of \<open>resolve\<close> or \<open>reject\<close>, whatever signals follow: the send
  has none of the four outcomes, and its latch is closed.
\<close>

theorem rejected_callback_never_settles:
  assumes "live s"
    and "\<forall>x \<in> set pre. \<not> is_terminal (snd x)"
    and "run thr pre (m, s) = (e1, m1, s1)"
    and "\<not> idle_returns flushed finished s1"
  shows "filter (\<lambda>x. is_settlement (snd x))
           (fst (run thr (pre @ (t, SessionIdle flushed finished) # post) (m, s))) = []
       \<and> settled (snd (snd (run thr (pre @ (t, SessionIdle flushed finished) # post) (m, s))))"
proof -
  obtain e2 m2 s2 where d: "deliver thr t (SessionIdle flushed finished) (m1, s1) = (e2, m2, s2)"
    by (cases "deliver thr t (SessionIdle flushed finished) (m1, s1)")
  have tm: "is_terminal (SessionIdle flushed finished)" by simp
  note f1 = first_terminal_signal_decides(1) [OF assms(1,2) tm assms(3) d, where post = post]
  note f4 = first_terminal_signal_decides(4) [OF assms(1,2) tm assms(3) d, where post = post]
  note f5 = first_terminal_signal_decides(5) [OF assms(1,2) tm assms(3) d]
  from assms(4) have n: "settlement_of (SessionIdle flushed finished) s1 = None" by simp
  from f4 have "filter (\<lambda>x. is_settlement (snd x))
           (fst (run thr (pre @ (t, SessionIdle flushed finished) # post) (m, s))) = []"
    unfolding n by simp
  moreover from f5 have "settled (snd (snd (run thr (pre @ (t, SessionIdle flushed finished) # post) (m, s))))"
    unfolding f1 by simp
  ultimately show ?thesis ..
qed

theorem rejected_callback_never_settles_witness:
  "live initial_send
   \<and> list_all (\<lambda>x. \<not> is_terminal (snd x)) example_send
   \<and> run 500 example_send (new_manager, initial_send)
     = ([(1200, Callback Text example_text (Some 0))], new_manager,
        initial_send\<lparr>fullContent := example_text, receivedDelta := True,
                     seg_text := example_text, seg_lastUpdate := 1200\<rparr>)
   \<and> idle_returns Fulfils Rejects
        (initial_send\<lparr>fullContent := example_text, receivedDelta := True,
                     seg_text := example_text, seg_lastUpdate := 1200\<rparr>) = False
   \<and> run 500 (example_send @ (2000, SessionIdle Fulfils Rejects)
                # [(2001, SessionError ''late''), (300000, TimeoutFired)])
        (new_manager, initial_send)
     = ([(1200, Callback Text example_text (Some 0)),
         (2000, Callback SegmentEnd example_text (Some 0)),
         (2000, Callback Done [] None)],
        new_manager\<lparr>lastActivity := Some 2000\<rparr>,
        initial_send\<lparr>fullContent := example_text, receivedDelta := True,
                   seg_text := example_text, seg_lastUpdate := 1200, settled := True,
                   timerPending := False, subAll := False, subIdle := False, subError := False\<rparr>)
   \<and> filter (\<lambda>x. is_settlement (snd x))
        (fst (run 500 (example_send @ (2000, SessionIdle Fulfils Rejects)
                         # [(2001, SessionError ''late''), (300000, TimeoutFired)])
                (new_manager, initial_send))) = []"
proof -
  have h1: "live initial_send" by (simp add: live_def initial_send_def)
  have h2: "\<forall>x \<in> set example_send. \<not> is_terminal (snd x)"
    by (simp add: example_send_def example_deltas_def)
  then have h2': "list_all (\<lambda>x. \<not> is_terminal (snd x)) example_send" unfolding list_all_iff .
  have h4: "\<not> idle_returns Fulfils Rejects
        (initial_send\<lparr>fullContent := example_text, receivedDelta := True,
                     seg_text := example_text, seg_lastUpdate := 1200\<rparr>)"
    by (simp add: idle_returns_def)
  then have h4': "idle_returns Fulfils Rejects
        (initial_send\<lparr>fullContent := example_text, receivedDelta := True,
                     seg_text := example_text, seg_lastUpdate := 1200\<rparr>) = False" by simp
  have ne: "example_text \<noteq> []" by (simp add: example_text_def)
  have r: "run 500 [(2000, SessionIdle Fulfils Rejects), (2001, SessionError ''late''),
                    (300000, TimeoutFired)]
      (new_manager, initial_send\<lparr>fullContent := example_text, receivedDelta := True,
                   seg_text := example_text, seg_lastUpdate := 1200\<rparr>)
     = ([(2000, Callback SegmentEnd example_text (Some 0)),
         (2000, Callback Done [] None)],
        new_manager\<lparr>lastActivity := Some 2000\<rparr>,
        initial_send\<lparr>fullContent := example_text, receivedDelta := True,
                   seg_text := example_text, seg_lastUpdate := 1200, settled := True,
                   timerPending := False, subAll := False, subIdle := False, subError := False\<rparr>)"
    using ne by (simp add: initial_send_def new_manager_def settle_def unsubscribe_def)
  have w: "run 500 (example_send @ (2000, SessionIdle Fulfils Rejects)
                # [(2001, SessionError ''late''), (300000, TimeoutFired)])
        (new_manager, initial_send)
     = ([(1200, Callback Text example_text (Some 0)),
         (2000, Callback SegmentEnd example_text (Some 0)),
         (2000, Callback Done [] None)],
        new_manager\<lparr>lastActivity := Some 2000\<rparr>,
        initial_send\<lparr>fullContent := example_text, receivedDelta := True,
                   seg_text := example_text, seg_lastUpdate := 1200, settled := True,
                   timerPending := False, subAll := False, subIdle := False, subError := False\<rparr>)"
    unfolding run_append example_send_run by (simp only: r prod.case append.simps)
  note t = rejected_callback_never_settles [OF h1 h2 example_send_run h4, of 2000
      "[(2001, SessionError ''late''), (300000, TimeoutFired)]", THEN conjunct1]
  from h1 h2' example_send_run h4' w t show ?thesis by (intro conjI)
qed

subsection \<open>Settlement by the idle event\<close>

text \<open>
  Claim C5 as stated fails: the idle handler does not always emit a \<open>segment_end\<close>. When
  the open segment has no text (a send without any text, or one that ends right after a
  tool start) the handler emits only \<open>done\<close>.
\<close>

theorem idle_without_text_counterexample:
  "deliver 500 5000 (SessionIdle Fulfils Fulfils) (new_manager, initial_send)
     = ([Callback Done [] None, Resolve ''No response from Copilot.''],
        new_manager\<lparr>lastActivity := Some 5000\<rparr>,
        initial_send\<lparr>settled := True, timerPending := False, subAll := False,
                     subIdle := False, subError := False\<rparr>)
   \<and> fst (run 500 (example_send @ [(1300, Event (ToolStart ''bash'')),
                                    (1400, SessionIdle Fulfils Fulfils)])
           (new_manager, initial_send))
     = [(1200, Callback Text example_text (Some 0)),
        (1300, Callback SegmentEnd example_text (Some 0)),
        (1300, Callback Tool (tool_prefix @ ''bash'') None),
        (1400, Callback Done [] None),
        (1400, Resolve example_text)]"
proof -
  have ne: "example_text \<noteq> []" by (simp add: example_text_def)
  have a: "deliver 500 5000 (SessionIdle Fulfils Fulfils) (new_manager, initial_send)
     = ([Callback Done [] None, Resolve ''No response from Copilot.''],
        new_manager\<lparr>lastActivity := Some 5000\<rparr>,
        initial_send\<lparr>settled := True, timerPending := False, subAll := False,
                     subIdle := False, subError := False\<rparr>)"
    by (simp add: initial_send_def new_manager_def settle_def unsubscribe_def)
  have b: "run 500 [(1300, Event (ToolStart ''bash'')), (1400, SessionIdle Fulfils Fulfils)]
      (new_manager, initial_send\<lparr>fullContent := example_text, receivedDelta := True,
                   seg_text := example_text, seg_lastUpdate := 1200\<rparr>)
     = ([(1300, Callback SegmentEnd example_text (Some 0)),
        (1300, Callback Tool (tool_prefix @ ''bash'') None),
        (1400, Callback Done [] None),
        (1400, Resolve example_text)],
        new_manager\<lparr>lastActivity := Some 1400\<rparr>,
        initial_send\<lparr>fullContent := example_text, receivedDelta := True,
                   seg_text := [], seg_lastUpdate := 0, seg_id := 1, settled := True,
                   timerPending := False, subAll := False, subIdle := False, subError := False\<rparr>)"
    using ne by (simp add: initial_send_def new_manager_def settle_def unsubscribe_def)
  have "fst (run 500 (example_send @ [(1300, Event (ToolStart ''bash'')),
                                      (1400, SessionIdle Fulfils Fulfils)])
           (new_manager, initial_send))
     = [(1200, Callback Text example_text (Some 0)),
        (1300, Callback SegmentEnd example_text (Some 0)),
        (1300, Callback Tool (tool_prefix @ ''bash'') None),
        (1400, Callback Done [] None),
        (1400, Resolve example_text)]"
    unfolding run_append example_send_run by (simp only: b prod.case fst_conv append.simps)
  with a show ?thesis by (intro conjI)
qed

text \<open>
  Claim C5, amended. When the idle event is the first settlement signal of a send and
  the awaited calls of the status callback complete, the handler emits a \<open>segment_end\<close>
  with the open segment's text and id if that text is not empty, and none otherwise;
  then it emits \<open>done\<close> with empty content. It sets \<open>lastActivity\<close> to the current time,
  clears \<open>lastError\<close>, \<open>lastErrorTime\<close>, the processing flag, \<open>queryStarted\<close> and
  \<open>currentTool\<close>, closes the latch and the subscriptions, and resolves with the full
  response, or with the fallback message when the full response is empty.
\<close>

theorem idle_settlement:
  assumes "\<not> settled s" and "subIdle s" and "idle_returns flushed finished s"
  shows "deliver thr now (SessionIdle flushed finished) (m, s) =
     ((if seg_text s \<noteq> [] then [Callback SegmentEnd (seg_text s) (Some (seg_id s))] else [])
      @ [Callback Done [] None,
         Resolve (if fullContent s \<noteq> [] then fullContent s else ''No response from Copilot.'')],
      m\<lparr>isProcessing := False, queryStarted := None, currentTool := None,
        lastActivity := Some now, lastError := None, lastErrorTime := None\<rparr>,
      s\<lparr>settled := True, timerPending := False, subAll := False, subIdle := False,
        subError := False\<rparr>)"
  using assms by (auto simp: on_idle_unsettled idle_returns_def simp del: handler_defs)

theorem idle_settlement_witness:
  "\<not> settled (initial_send\<lparr>fullContent := example_text, receivedDelta := True,
                   seg_text := example_text, seg_lastUpdate := 1200\<rparr>)
   \<and> subIdle (initial_send\<lparr>fullContent := example_text, receivedDelta := True,
                   seg_text := example_text, seg_lastUpdate := 1200\<rparr>)
   \<and> idle_returns Fulfils Fulfils
        (initial_send\<lparr>fullContent := example_text, receivedDelta := True,
                   seg_text := example_text, seg_lastUpdate := 1200\<rparr>)
   \<and> deliver 500 2000 (SessionIdle Fulfils Fulfils)
        (new_manager\<lparr>isProcessing := True, queryStarted := Some 900, lastError := Some ''old''\<rparr>,
         initial_send\<lparr>fullContent := example_text, receivedDelta := True,
                   seg_text := example_text, seg_lastUpdate := 1200\<rparr>)
     = ([Callback SegmentEnd example_text (Some 0), Callback Done [] None, Resolve example_text],
        new_manager\<lparr>lastActivity := Some 2000\<rparr>,
        initial_send\<lparr>fullContent := example_text, receivedDelta := True,
                   seg_text := example_text, seg_lastUpdate := 1200, settled := True,
                   timerPending := False, subAll := False, subIdle := False, subError := False\<rparr>)"
proof -
  have h1: "\<not> settled (initial_send\<lparr>fullContent := example_text, receivedDelta := True,
                   seg_text := example_text, seg_lastUpdate := 1200\<rparr>)"
    and h2: "subIdle (initial_send\<lparr>fullContent := example_text, receivedDelta := True,
                   seg_text := example_text, seg_lastUpdate := 1200\<rparr>)"
    and h3: "idle_returns Fulfils Fulfils
        (initial_send\<lparr>fullContent := example_text, receivedDelta := True,
                   seg_text := example_text, seg_lastUpdate := 1200\<rparr>)"
    by (simp_all add: initial_send_def idle_returns_def)
  have ne: "example_text \<noteq> []" by (simp add: example_text_def)
  from idle_settlement [OF h1 h2 h3, of 500 2000
      "new_manager\<lparr>isProcessing := True, queryStarted := Some 900, lastError := Some ''old''\<rparr>"] ne
  have "deliver 500 2000 (SessionIdle Fulfils Fulfils)
        (new_manager\<lparr>isProcessing := True, queryStarted := Some 900, lastError := Some ''old''\<rparr>,
         initial_send\<lparr>fullContent := example_text, receivedDelta := True,
                   seg_text := example_text, seg_lastUpdate := 1200\<rparr>)
     = ([Callback SegmentEnd example_text (Some 0), Callback Done [] None, Resolve example_text],
        new_manager\<lparr>lastActivity := Some 2000\<rparr>,
        initial_send\<lparr>fullContent := example_text, receivedDelta := True,
                   seg_text := example_text, seg_lastUpdate := 1200, settled := True,
                   timerPending := False, subAll := False, subIdle := False, subError := False\<rparr>)"
    by (simp add: initial_send_def new_manager_def)
  with h1 h2 h3 show ?thesis by (intro conjI)
qed

subsection \<open>Settlement by an error\<close>

text \<open>
  What each of the three failing settlements records: the error event stores the first
  100 characters of its message and the time; the timeout and the failed submission
  leave \<open>lastError\<close> and \<open>lastErrorTime\<close> as they were.
\<close>

lemma settlement_error_record:
  assumes "\<not> settled s"
  shows "lastError (fst (snd (on_error now message (m, s))))
           = Some (take 100 (if message \<noteq> [] then message else ''Unknown Copilot error''))"
    and "lastErrorTime (fst (snd (on_error now message (m, s)))) = Some now"
    and "fst (on_error now message (m, s))
           = [Reject (if message \<noteq> [] then message else ''Unknown Copilot error'')]"
    and "lastError (fst (snd (on_timeout (m, s)))) = lastError m"
    and "lastErrorTime (fst (snd (on_timeout (m, s)))) = lastErrorTime m"
    and "fst (on_timeout (m, s)) = [Reject ''Copilot response timed out'']"
    and "lastError (fst (snd (on_send_failed err (m, s)))) = lastError m"
    and "lastErrorTime (fst (snd (on_send_failed err (m, s)))) = lastErrorTime m"
    and "fst (on_send_failed err (m, s)) = [Reject err]"
  using assms
  by (simp_all add: on_error_unsettled on_timeout_unsettled on_send_failed_unsettled
      del: handler_defs)

text \<open>
  Claim C6 at a first send that times out, at one whose submission fails, and at one
  that receives an error event: all three reject the call, but only the error event
  records the message and the time; after the other two \<open>lastError\<close> and
  \<open>lastErrorTime\<close> are still null.
\<close>

theorem timeout_records_no_error:
  "fst (deliver 500 300000 TimeoutFired (snd (begin_send 0 ''[now] '' ''hello'' new_manager)))
     = [Reject ''Copilot response timed out'']
   \<and> lastError (fst (snd (deliver 500 300000 TimeoutFired
        (snd (begin_send 0 ''[now] '' ''hello'' new_manager))))) = None
   \<and> lastErrorTime (fst (snd (deliver 500 300000 TimeoutFired
        (snd (begin_send 0 ''[now] '' ''hello'' new_manager))))) = None
   \<and> fst (deliver 500 40 (SendRejected ''connection lost'')
        (snd (begin_send 0 ''[now] '' ''hello'' new_manager)))
     = [Reject ''connection lost'']
   \<and> lastError (fst (snd (deliver 500 40 (SendRejected ''connection lost'')
        (snd (begin_send 0 ''[now] '' ''hello'' new_manager))))) = None
   \<and> lastErrorTime (fst (snd (deliver 500 40 (SendRejected ''connection lost'')
        (snd (begin_send 0 ''[now] '' ''hello'' new_manager))))) = None
   \<and> fst (deliver 500 40 (SessionError ''quota exceeded'')
        (snd (begin_send 0 ''[now] '' ''hello'' new_manager)))
     = [Reject ''quota exceeded'']
   \<and> lastError (fst (snd (deliver 500 40 (SessionError ''quota exceeded'')
        (snd (begin_send 0 ''[now] '' ''hello'' new_manager))))) = Some ''quota exceeded''
   \<and> lastErrorTime (fst (snd (deliver 500 40 (SessionError ''quota exceeded'')
        (snd (begin_send 0 ''[now] '' ''hello'' new_manager))))) = Some 40"
  by (simp add: begin_send_def initial_send_def new_manager_def settle_def unsubscribe_def Let_def)



subsection \<open>Kill\<close>

lemma kill_eq:
  "kill destroyed m =
     (session m, m\<lparr>session := None, lastActivity := None, conversationTitle := None,
                  lastMessage := None, isProcessing := False\<rparr>)"
proof (cases "session m")
  case None
  then have "m\<lparr>session := None\<rparr> = m" by (cases m) simp
  with None show ?thesis by (simp add: kill_def)
next
  case (Some h)
  then show ?thesis by (cases destroyed) (simp_all add: kill_def)
qed


text \<open>
  Claim C9. \<open>kill\<close> calls \<open>destroy\<close> on the session handle, if there is one, and sets it
  to null whether or not \<open>destroy\<close> throws, so that \<open>sessionId\<close> is null and \<open>isActive\<close>
  false; it resets \<open>lastActivity\<close>, \<open>conversationTitle\<close>, \<open>lastMessage\<close> and the
  processing flag, and leaves every other field as it was. The next send finds no
  session and takes the one the backend creates (given that the client exists or
  starts), and it sends the date line in front of the message, as a new session does.
\<close>

theorem kill_resets_session:
  "kill destroyed m =
     (session m, m\<lparr>session := None, lastActivity := None, conversationTitle := None,
                  lastMessage := None, isProcessing := False\<rparr>)
   \<and> session (snd (kill destroyed m)) = None
   \<and> sessionId (snd (kill destroyed m)) = None
   \<and> \<not> isActive (snd (kill destroyed m))
   \<and> lastActivity (snd (kill destroyed m)) = None
   \<and> conversationTitle (snd (kill destroyed m)) = None
   \<and> lastMessage (snd (kill destroyed m)) = None
   \<and> \<not> isProcessing (snd (kill destroyed m))
   \<and> lastError (snd (kill destroyed m)) = lastError m
   \<and> lastErrorTime (snd (kill destroyed m)) = lastErrorTime m
   \<and> lastUsage (snd (kill destroyed m)) = lastUsage m
   \<and> lastTool (snd (kill destroyed m)) = lastTool m
   \<and> currentTool (snd (kill destroyed m)) = currentTool m
   \<and> currentModel (snd (kill destroyed m)) = currentModel m
   \<and> stopRequested (snd (kill destroyed m)) = stopRequested m
   \<and> interruptFlag (snd (kill destroyed m)) = interruptFlag m
   \<and> queryStarted (snd (kill destroyed m)) = queryStarted m
   \<and> client (snd (kill destroyed m)) = client m
   \<and> (client m \<noteq> None \<or> started = Inr () \<longrightarrow>
        fst (ensureSession started (Inr fresh) (snd (kill destroyed m))) = Inr fresh
        \<and> session (snd (ensureSession started (Inr fresh) (snd (kill destroyed m)))) = Some fresh)
   \<and> fst (begin_send now datePrefix message (snd (kill destroyed m))) = datePrefix @ message"
proof -
  have ens: "client m \<noteq> None \<or> started = Inr () \<longrightarrow>
        fst (ensureSession started (Inr fresh) (snd (kill destroyed m))) = Inr fresh
        \<and> session (snd (ensureSession started (Inr fresh) (snd (kill destroyed m)))) = Some fresh"
    unfolding kill_eq
    by (auto simp: ensureSession_def ensureClient_def split: option.splits sum.splits)
  show ?thesis
    using ens unfolding kill_eq
    by (simp add: sessionId_def isActive_def begin_send_def)
qed

theorem kill_resets_session_witness:
  "client example_manager \<noteq> None
   \<and> kill (Inr ()) example_manager
     = (Some (SdkSession ''abc123''),
        new_manager\<lparr>client := Some CopilotClient, lastError := Some ''old error'',
          lastErrorTime := Some 6000, lastTool := Some ''bash'', stopRequested := True\<rparr>)
   \<and> ensureSession (Inr ()) (Inr (SdkSession ''def456'')) (snd (kill (Inr ()) example_manager))
     = (Inr (SdkSession ''def456''),
        new_manager\<lparr>client := Some CopilotClient, lastError := Some ''old error'',
          lastErrorTime := Some 6000, lastTool := Some ''bash'', stopRequested := True,
          session := Some (SdkSession ''def456'')\<rparr>)"
proof -
  have c: "client example_manager \<noteq> None" by (simp add: example_manager_def new_manager_def)
  then have h: "client example_manager \<noteq> None \<or> Inr () = (Inr () :: string + unit)" ..
  note t = kill_resets_session [of "Inr ()" example_manager "Inr ()" "SdkSession ''def456''" 0 "[]" "[]"]
  from t [THEN conjunct1]
  have k: "kill (Inr ()) example_manager
     = (Some (SdkSession ''abc123''),
        new_manager\<lparr>client := Some CopilotClient, lastError := Some ''old error'',
          lastErrorTime := Some 6000, lastTool := Some ''bash'', stopRequested := True\<rparr>)"
    by (simp add: example_manager_def new_manager_def)
  have e: "ensureSession (Inr ()) (Inr (SdkSession ''def456'')) (snd (kill (Inr ()) example_manager))
     = (Inr (SdkSession ''def456''),
        new_manager\<lparr>client := Some CopilotClient, lastError := Some ''old error'',
          lastErrorTime := Some 6000, lastTool := Some ''bash'', stopRequested := True,
          session := Some (SdkSession ''def456'')\<rparr>)"
    unfolding k by (simp add: ensureSession_def ensureClient_def new_manager_def)
  from t have "client example_manager \<noteq> None \<or> Inr () = (Inr () :: string + unit) \<longrightarrow>
        fst (ensureSession (Inr ()) (Inr (SdkSession ''def456'')) (snd (kill (Inr ()) example_manager)))
          = Inr (SdkSession ''def456'')
        \<and> session (snd (ensureSession (Inr ()) (Inr (SdkSession ''def456''))
             (snd (kill (Inr ()) example_manager)))) = Some (SdkSession ''def456'')"
    by (elim conjE)
  from mp [OF this h] e
  have "fst (ensureSession (Inr ()) (Inr (SdkSession ''def456'')) (snd (kill (Inr ()) example_manager)))
          = Inr (SdkSession ''def456'')" by simp
  from c k e show ?thesis by (intro conjI)
qed

end
